theory Spec2Isabelle
  imports Main "HOL-Library.Word"
begin

unbundle bit_operations_syntax

section \<open>Data model of the auth service\<close>

text \<open>
  Instants (\<open>Date\<close> values) are milliseconds since the epoch, an \<open>int\<close>.
  Every operation reads the clock as one instant \<open>now\<close>.
  The request context (ip address, user agent) only annotates rows and audit
  metadata and is left out of the rows below.
\<close>

datatype error =
    AUTH_INVALID_CREDENTIALS
  | AUTH_ACCOUNT_SUSPENDED
  | AUTH_INVALID_REFRESH_TOKEN
  | AUTH_REFRESH_TOKEN_REVOKED
  | AUTH_REFRESH_TOKEN_EXPIRED
  | AUTH_RESET_TOKEN_INVALID
  | AUTH_MFA_CHALLENGE_INVALID
  | AUTH_MFA_CHALLENGE_EXPIRED
  | AUTH_MFA_CHALLENGE_LOCKED
  | AUTH_MFA_CODE_INCORRECT
  | PrismaP2025
  | PrismaP2002
  | Argon2Rejected
  | DecryptFailed
  | RangeError
  | Base32Error

datatype user_status = Active | Invited | Suspended

datatype challenge_type = Setup | Login | Recovery

record AuthUser =
  u_id :: string
  u_email :: string
  u_status :: user_status
  u_emailVerifiedAt :: "int option"
  u_lastLoginAt :: "int option"

record PasswordCredential =
  pc_userId :: string
  pc_passwordHash :: string
  pc_updatedAt :: "int option"

record RefreshTokenRecord =
  rt_id :: string
  rt_userId :: string
  rt_tokenHash :: string
  rt_issuedAt :: int
  rt_expiresAt :: int
  rt_revokedAt :: "int option"
  rt_replacedByTokenId :: "string option"

record PasswordResetTokenRecord =
  pr_userId :: string
  pr_token :: string
  pr_expiresAt :: int
  pr_consumedAt :: "int option"

record MfaConfiguration =
  mfa_id :: string
  mfa_userId :: string
  mfa_secretEncrypted :: string
  mfa_deviceName :: "string option"
  mfa_activatedAt :: "int option"

record MfaChallengeRecord =
  ch_id :: string
  ch_userId :: string
  ch_userMfaId :: "string option"
  ch_type :: challenge_type
  ch_secretEncrypted :: "string option"
  ch_deviceName :: "string option"
  ch_context :: "bool option"
  ch_expiresAt :: int
  ch_consumedAt :: "int option"
  ch_attempts :: int

record MfaBackupCodeRecord =
  bc_id :: string
  bc_userMfaId :: string
  bc_codeHash :: string
  bc_usedAt :: "int option"

record MfaRememberedDeviceRecord =
  rd_id :: string
  rd_userMfaId :: string
  rd_tokenHash :: string
  rd_expiresAt :: int
  rd_lastUsedAt :: "int option"

record AuditEvent =
  ae_action :: string
  ae_userId :: string

text \<open>
  The database: one list of rows per table, in insertion order. \<open>entropy\<close> counts
  the draws made so far from the random source (random bytes, UUIDs, hash salts).
\<close>

record store =
  users :: "AuthUser list"
  passwordCredentials :: "PasswordCredential list"
  refreshTokens :: "RefreshTokenRecord list"
  passwordResetTokens :: "PasswordResetTokenRecord list"
  mfaSettings :: "MfaConfiguration list"
  mfaChallenges :: "MfaChallengeRecord list"
  mfaBackupCodes :: "MfaBackupCodeRecord list"
  mfaRememberedDevices :: "MfaRememberedDeviceRecord list"
  auditEvents :: "AuditEvent list"
  entropy :: nat

text \<open>
  Library functions the service calls (argon2, node:crypto, jsonwebtoken) are
  parameters. \<open>argon2_verify\<close> returns \<open>None\<close> when the promise rejects;
  \<open>decrypt\<close> returns \<open>None\<close> when \<open>decryptSecret\<close> throws. Random draws
  are functions of the draw index.
\<close>

record externals =
  argon2_hash :: "nat \<Rightarrow> string \<Rightarrow> string"
  argon2_verify :: "string \<Rightarrow> string \<Rightarrow> bool option"
  randomToken :: "nat \<Rightarrow> nat \<Rightarrow> string"
  randomBytes :: "nat \<Rightarrow> nat \<Rightarrow> 8 word list"
  randomUUID :: "nat \<Rightarrow> string"
  jwt_sign :: "string \<Rightarrow> int \<Rightarrow> string"
  decrypt :: "string \<Rightarrow> string \<Rightarrow> string option"
  hmac_sha1 :: "8 word list \<Rightarrow> 8 word list \<Rightarrow> 8 word list"

record Env =
  ACCESS_TOKEN_TTL_SECONDS :: int
  REFRESH_TOKEN_TTL_SECONDS :: int
  MFA_CHALLENGE_TTL_SECONDS :: int
  MFA_MAX_ATTEMPTS :: int
  MFA_REMEMBER_DEVICE_DAYS :: int
  MFA_ENCRYPTION_KEY :: string

record AuthTokens =
  accessToken :: string
  accessTokenExpiresAt :: int
  refreshToken :: string
  refreshTokenExpiresAt :: int

section \<open>Prisma row operations\<close>

text \<open>
  \<open>update\<close> and \<open>delete\<close> on a unique key throw P2025 when no row matches;
  \<open>create\<close> throws P2002 when the unique key is taken; \<open>updateMany\<close> and
  \<open>deleteMany\<close> never throw.
\<close>

definition findUnique :: "('r \<Rightarrow> bool) \<Rightarrow> 'r list \<Rightarrow> 'r option" where
  "findUnique p rows = find p rows"

definition updateMany :: "('r \<Rightarrow> bool) \<Rightarrow> ('r \<Rightarrow> 'r) \<Rightarrow> 'r list \<Rightarrow> 'r list" where
  "updateMany p f rows = map (\<lambda>r. if p r then f r else r) rows"

definition deleteMany :: "('r \<Rightarrow> bool) \<Rightarrow> 'r list \<Rightarrow> 'r list" where
  "deleteMany p rows = filter (\<lambda>r. \<not> p r) rows"

definition update_row :: "('r \<Rightarrow> bool) \<Rightarrow> ('r \<Rightarrow> 'r) \<Rightarrow> 'r list \<Rightarrow> error + 'r list" where
  "update_row p f rows =
     (if list_ex p rows then Inr (updateMany p f rows) else Inl PrismaP2025)"

definition delete_row :: "('r \<Rightarrow> bool) \<Rightarrow> 'r list \<Rightarrow> error + 'r list" where
  "delete_row p rows =
     (if list_ex p rows then Inr (deleteMany p rows) else Inl PrismaP2025)"

definition create_row :: "('r \<Rightarrow> bool) \<Rightarrow> 'r \<Rightarrow> 'r list \<Rightarrow> error + 'r list" where
  "create_row clash r rows =
     (if list_ex clash rows then Inl PrismaP2002 else Inr (rows @ [r]))"

section \<open>PrismaAuthRepository: users and refresh tokens\<close>

definition findUserById :: "store \<Rightarrow> string \<Rightarrow> AuthUser option" where
  "findUserById s uid = findUnique (\<lambda>u. u_id u = uid) (users s)"

text \<open>\<open>findUserByEmail\<close> returns null when the user has no password credential.\<close>

definition findUserByEmail :: "store \<Rightarrow> string \<Rightarrow> (AuthUser \<times> string) option" where
  "findUserByEmail s em =
     (case findUnique (\<lambda>u. u_email u = em) (users s) of
        None \<Rightarrow> None
      | Some u \<Rightarrow>
          (case findUnique (\<lambda>c. pc_userId c = u_id u) (passwordCredentials s) of
             None \<Rightarrow> None
           | Some c \<Rightarrow> Some (u, pc_passwordHash c)))"

definition saveRefreshToken :: "store \<Rightarrow> RefreshTokenRecord \<Rightarrow> error + store" where
  "saveRefreshToken s r =
     (case create_row (\<lambda>x. rt_id x = rt_id r)
             (r\<lparr>rt_revokedAt := None, rt_replacedByTokenId := None\<rparr>) (refreshTokens s) of
        Inl e \<Rightarrow> Inl e
      | Inr rows \<Rightarrow> Inr (s\<lparr>refreshTokens := rows\<rparr>))"

text \<open>
  \<open>findRefreshTokenById\<close> includes the owning user; the foreign key makes a
  token without a user impossible, and the lookup is null in that case.
\<close>

definition findRefreshTokenById :: "store \<Rightarrow> string \<Rightarrow> (RefreshTokenRecord \<times> AuthUser) option" where
  "findRefreshTokenById s tid =
     (case findUnique (\<lambda>r. rt_id r = tid) (refreshTokens s) of
        None \<Rightarrow> None
      | Some r \<Rightarrow>
          (case findUserById s (rt_userId r) of
             None \<Rightarrow> None
           | Some u \<Rightarrow> Some (r, u)))"

text \<open>\<open>revokeRefreshToken\<close>: \<open>update where { id }\<close>, whatever \<open>revokedAt\<close> was.\<close>

definition revokeRefreshToken :: "store \<Rightarrow> string \<Rightarrow> int \<Rightarrow> string option \<Rightarrow> error + store" where
  "revokeRefreshToken s tid revokedAt replacedByTokenId =
     (case update_row (\<lambda>r. rt_id r = tid)
             (\<lambda>r. r\<lparr>rt_revokedAt := Some revokedAt, rt_replacedByTokenId := replacedByTokenId\<rparr>)
             (refreshTokens s) of
        Inl e \<Rightarrow> Inl e
      | Inr rows \<Rightarrow> Inr (s\<lparr>refreshTokens := rows\<rparr>))"

text \<open>\<open>revokeRefreshTokensForUser\<close>: \<open>updateMany where { userId, revokedAt: null }\<close>.\<close>

definition revokeRefreshTokensForUser :: "store \<Rightarrow> string \<Rightarrow> int \<Rightarrow> store" where
  "revokeRefreshTokensForUser s uid revokedAt =
     s\<lparr>refreshTokens :=
        updateMany (\<lambda>r. rt_userId r = uid \<and> rt_revokedAt r = None)
          (\<lambda>r. r\<lparr>rt_revokedAt := Some revokedAt\<rparr>) (refreshTokens s)\<rparr>"

definition createAuditEvent :: "store \<Rightarrow> string \<Rightarrow> string \<Rightarrow> store" where
  "createAuditEvent s action uid =
     s\<lparr>auditEvents := auditEvents s @ [\<lparr>ae_action = action, ae_userId = uid\<rparr>]\<rparr>"

section \<open>AuthService: session issuance and refresh\<close>

text \<open>JavaScript \<open>String.prototype.split\<close> on a one-character separator.\<close>

fun split_on :: "char \<Rightarrow> string \<Rightarrow> string list" where
  "split_on d [] = [[]]"
| "split_on d (c # cs) =
     (if c = d then [] # split_on d cs
      else (case split_on d cs of
              [] \<Rightarrow> [[c]]
            | x # xs \<Rightarrow> (c # x) # xs))"

definition parseCompositeToken :: "string \<Rightarrow> error \<Rightarrow> bool \<Rightarrow> error + (string \<times> string) option" where
  "parseCompositeToken token errorCode tolerant =
     (case split_on CHR ''.'' token of
        [a, b] \<Rightarrow>
          (if a = [] \<or> b = [] then (if tolerant then Inr None else Inl errorCode)
           else Inr (Some (a, b)))
      | _ \<Rightarrow> (if tolerant then Inr None else Inl errorCode))"

definition refreshTtlSeconds :: "Env \<Rightarrow> bool \<Rightarrow> int" where
  "refreshTtlSeconds env rememberMe =
     (if rememberMe then REFRESH_TOKEN_TTL_SECONDS env
      else min (REFRESH_TOKEN_TTL_SECONDS env) (7 * 24 * 60 * 60))"

text \<open>
  \<open>issueSession\<close>: three draws (the secret, the id, the salt of the hash), the
  new row, then the revocation of the previous token when its id is truthy.
\<close>

definition issueSession ::
  "externals \<Rightarrow> Env \<Rightarrow> int \<Rightarrow> store \<Rightarrow> AuthUser \<Rightarrow> string option \<Rightarrow> bool \<Rightarrow> (error + AuthTokens) \<times> store" where
  "issueSession ext env now s user previousTokenId rememberMe =
     (let n = entropy s;
          accessExp = now + ACCESS_TOKEN_TTL_SECONDS env * 1000;
          refreshExp = now + refreshTtlSeconds env rememberMe * 1000;
          refreshTokenSecret = randomToken ext n 48;
          refreshTokenId = randomUUID ext (n + 1);
          refreshTokenValue = refreshTokenId @ ''.'' @ refreshTokenSecret;
          refreshTokenHash = argon2_hash ext (n + 2) refreshTokenSecret;
          s0 = s\<lparr>entropy := n + 3\<rparr>
      in case saveRefreshToken s0
             \<lparr>rt_id = refreshTokenId, rt_userId = u_id user, rt_tokenHash = refreshTokenHash,
              rt_issuedAt = now, rt_expiresAt = refreshExp, rt_revokedAt = None,
              rt_replacedByTokenId = None\<rparr> of
           Inl e \<Rightarrow> (Inl e, s0)
         | Inr s1 \<Rightarrow>
             (case (case previousTokenId of
                      None \<Rightarrow> Inr s1
                    | Some p \<Rightarrow>
                        (if p = [] then Inr s1
                         else revokeRefreshToken s1 p now (Some refreshTokenId))) of
                Inl e \<Rightarrow> (Inl e, s1)
              | Inr s2 \<Rightarrow>
                  (Inr \<lparr>accessToken = jwt_sign ext (u_id user) (ACCESS_TOKEN_TTL_SECONDS env),
                        accessTokenExpiresAt = accessExp,
                        refreshToken = refreshTokenValue,
                        refreshTokenExpiresAt = refreshExp\<rparr>, s2)))"

definition refreshSession ::
  "externals \<Rightarrow> Env \<Rightarrow> int \<Rightarrow> store \<Rightarrow> string \<Rightarrow> (error + AuthUser \<times> AuthTokens) \<times> store" where
  "refreshSession ext env now s token =
     (case parseCompositeToken token AUTH_INVALID_REFRESH_TOKEN False of
        Inl e \<Rightarrow> (Inl e, s)
      | Inr None \<Rightarrow> (Inl AUTH_INVALID_REFRESH_TOKEN, s)
      | Inr (Some (tid, secret)) \<Rightarrow>
          (case findRefreshTokenById s tid of
             None \<Rightarrow> (Inl AUTH_INVALID_REFRESH_TOKEN, s)
           | Some (record, user) \<Rightarrow>
               if rt_revokedAt record \<noteq> None then (Inl AUTH_REFRESH_TOKEN_REVOKED, s)
               else if rt_expiresAt record \<le> now then
                 (case revokeRefreshToken s (rt_id record) now None of
                    Inl e \<Rightarrow> (Inl e, s)
                  | Inr s1 \<Rightarrow> (Inl AUTH_REFRESH_TOKEN_EXPIRED, s1))
               else
                 (case argon2_verify ext (rt_tokenHash record) secret of
                    None \<Rightarrow> (Inl Argon2Rejected, s)
                  | Some False \<Rightarrow>
                      (case revokeRefreshToken s (rt_id record) now None of
                         Inl e \<Rightarrow> (Inl e, s)
                       | Inr s1 \<Rightarrow> (Inl AUTH_INVALID_REFRESH_TOKEN, s1))
                  | Some True \<Rightarrow>
                      if u_status user = Suspended then
                        (case revokeRefreshToken s (rt_id record) now None of
                           Inl e \<Rightarrow> (Inl e, s)
                         | Inr s1 \<Rightarrow> (Inl AUTH_ACCOUNT_SUSPENDED, s1))
                      else
                        (case issueSession ext env now s user (Some (rt_id record)) False of
                           (Inl e, s1) \<Rightarrow> (Inl e, s1)
                         | (Inr tokens, s1) \<Rightarrow>
                             (Inr (user, tokens),
                              createAuditEvent s1 ''auth.refresh'' (u_id user))))))"

section \<open>Strings\<close>

text \<open>
  Strings are lists of 8-bit characters; \<open>toUpperCase\<close>, \<open>toLowerCase\<close> and
  \<open>trim\<close> act on the ASCII range, and code points above it are not modelled.
\<close>

definition char_between :: "char \<Rightarrow> char \<Rightarrow> char \<Rightarrow> bool" where
  "char_between lo hi c = ((of_char lo :: nat) \<le> of_char c \<and> (of_char c :: nat) \<le> of_char hi)"

definition upper_char :: "char \<Rightarrow> char" where
  "upper_char c = (if char_between CHR ''a'' CHR ''z'' c then char_of (of_char c - (32::nat)) else c)"

definition lower_char :: "char \<Rightarrow> char" where
  "lower_char c = (if char_between CHR ''A'' CHR ''Z'' c then char_of (of_char c + (32::nat)) else c)"

definition toUpperCase :: "string \<Rightarrow> string" where
  "toUpperCase s = map upper_char s"

definition toLowerCase :: "string \<Rightarrow> string" where
  "toLowerCase s = map lower_char s"

definition is_space :: "char \<Rightarrow> bool" where
  "is_space c = (c = CHR '' '' \<or> (9::nat) \<le> of_char c \<and> of_char c \<le> (13::nat))"

definition trim :: "string \<Rightarrow> string" where
  "trim s = rev (dropWhile is_space (rev (dropWhile is_space s)))"

definition is_digit :: "char \<Rightarrow> bool" where
  "is_digit c = char_between CHR ''0'' CHR ''9'' c"

definition is_upper_alnum :: "char \<Rightarrow> bool" where
  "is_upper_alnum c = (char_between CHR ''A'' CHR ''Z'' c \<or> is_digit c)"

text \<open>The regular expression \<open>/^[0-9]{6}$/\<close>.\<close>

definition is_totp_shaped :: "string \<Rightarrow> bool" where
  "is_totp_shaped code = (length code = 6 \<and> list_all is_digit code)"

text \<open>\<open>BACKUP_CODE_PATTERN\<close>, \<open>/^[A-Z0-9]{4}-[A-Z0-9]{4}$/\<close>.\<close>

definition BACKUP_CODE_PATTERN :: "string \<Rightarrow> bool" where
  "BACKUP_CODE_PATTERN code =
     (length code = 9 \<and> list_all is_upper_alnum (take 4 code) \<and> code ! 4 = CHR ''-''
      \<and> list_all is_upper_alnum (drop 5 code))"

definition BACKUP_CODE_COUNT :: nat where
  "BACKUP_CODE_COUNT = 8"

section \<open>lib/totp\<close>

definition BASE32_ALPHABET :: string where
  "BASE32_ALPHABET = ''ABCDEFGHIJKLMNOPQRSTUVWXYZ234567''"

text \<open>
  \<open>base32Encode\<close>: \<open>value\<close> is a JavaScript number under bitwise operators,
  a 32-bit word. The inner \<open>while (bits >= 5)\<close> loop is \<open>base32_emit\<close>.
\<close>

function base32_emit :: "nat \<times> 32 word \<times> string \<Rightarrow> nat \<times> 32 word \<times> string" where
  "base32_emit (bits, v, out) =
     (if 5 \<le> bits
      then base32_emit (bits - 5, v, out @ [BASE32_ALPHABET ! unat (drop_bit (bits - 5) v AND 31)])
      else (bits, v, out))"
  by pat_completeness auto
termination
  by (relation "measure (\<lambda>(bits, v, out). bits)") auto

declare base32_emit.simps [simp del]

fun base32Encode_loop :: "8 word list \<Rightarrow> nat \<times> 32 word \<times> string \<Rightarrow> string" where
  "base32Encode_loop [] (bits, v, out) =
     (if 0 < bits then out @ [BASE32_ALPHABET ! unat (push_bit (5 - bits) v AND 31)] else out)"
| "base32Encode_loop (byte # rest) (bits, v, out) =
     base32Encode_loop rest (base32_emit (bits + 8, push_bit 8 v OR ucast byte, out))"

definition base32Encode :: "8 word list \<Rightarrow> string" where
  "base32Encode buffer = base32Encode_loop buffer (0, 0, [])"

fun indexOf :: "char \<Rightarrow> string \<Rightarrow> nat option" where
  "indexOf c [] = None"
| "indexOf c (x # xs) = (if x = c then Some 0 else map_option Suc (indexOf c xs))"

definition is_base32_char :: "char \<Rightarrow> bool" where
  "is_base32_char c = (char_between CHR ''A'' CHR ''Z'' c \<or> char_between CHR ''2'' CHR ''7'' c)"

text \<open>\<open>base32Decode\<close>: \<open>None\<close> is the thrown \<open>Invalid base32 character\<close>.\<close>

fun base32Decode_loop :: "string \<Rightarrow> nat \<Rightarrow> 32 word \<Rightarrow> 8 word list \<Rightarrow> 8 word list option" where
  "base32Decode_loop [] bits v bytes = Some bytes"
| "base32Decode_loop (c # cs) bits v bytes =
     (case indexOf c BASE32_ALPHABET of
        None \<Rightarrow> None
      | Some index \<Rightarrow>
          (let v' = push_bit 5 v OR of_nat index; bits' = bits + 5
           in if 8 \<le> bits'
              then base32Decode_loop cs (bits' - 8) v' (bytes @ [ucast (drop_bit (bits' - 8) v')])
              else base32Decode_loop cs bits' v' bytes))"

definition base32Decode :: "string \<Rightarrow> 8 word list option" where
  "base32Decode input = base32Decode_loop (filter is_base32_char (toUpperCase input)) 0 0 []"

text \<open>
  The options of \<open>lib/totp\<close> are JavaScript numbers. The model takes integers for
  them and computes as IEEE 754 binary64 does: an integer is read as the double
  nearest to it, an operation returns the double nearest to its exact result, ties
  go to the even significand, and a magnitude of \<open>2^1024\<close> or more is infinite.
  Only integer values, the infinities and \<open>NaN\<close> occur here. No caller
  distinguishes the two infinities or the two zeros, so \<open>Infinity\<close> stands for
  both infinities and \<open>Num 0\<close> for both zeros.
\<close>

datatype number = Num int | Infinity | NaN

function bit_length :: "int \<Rightarrow> nat" where
  "bit_length n = (if n \<le> 0 then 0 else Suc (bit_length (n div 2)))"
  by pat_completeness auto
termination
  by (relation "measure nat") auto

declare bit_length.simps [simp del]

text \<open>The integer part of the binary logarithm of \<open>p / q\<close>, for positive \<open>p\<close> and \<open>q\<close>.\<close>

definition floor_log2 :: "int \<Rightarrow> int \<Rightarrow> int" where
  "floor_log2 p q =
     (let d = int (bit_length p) - int (bit_length q)
      in if q * 2 ^ nat d \<le> p * 2 ^ nat (- d) then d else d - 1)"

text \<open>The integer nearest to \<open>p / q\<close>, the even one of two equally near.\<close>

definition rne_div :: "int \<Rightarrow> int \<Rightarrow> int" where
  "rne_div p q =
     (if 2 * (p mod q) < q then p div q
      else if q < 2 * (p mod q) then p div q + 1
      else if even (p div q) then p div q
      else p div q + 1)"

text \<open>
  The double nearest to \<open>p / q\<close> for positive \<open>p\<close> and \<open>q\<close>, as significand \<open>m\<close>
  and exponent \<open>e\<close> of the value \<open>m * 2^e\<close>: 53 bits of significand, and no
  exponent below that of the subnormal numbers.
\<close>

definition round_double :: "int \<Rightarrow> int \<Rightarrow> int \<times> int" where
  "round_double p q =
     (let e = max (floor_log2 p q - 52) (- 1074)
      in (rne_div (p * 2 ^ nat (- e)) (q * 2 ^ nat e), e))"

text \<open>\<open>Math.floor\<close> of the double nearest to \<open>p / q\<close>, for positive \<open>q\<close>.\<close>

definition floor_double :: "int \<Rightarrow> int \<Rightarrow> number" where
  "floor_double p q =
     (if p = 0 then Num 0
      else
        (case round_double \<bar>p\<bar> q of
           (m, e) \<Rightarrow>
             if 2 ^ 1024 \<le> m * 2 ^ nat e then Infinity
             else Num ((sgn p * m * 2 ^ nat e) div 2 ^ nat (- e))))"

text \<open>The number an integer is read as.\<close>

definition to_number :: "int \<Rightarrow> number" where
  "to_number z = floor_double z 1"

text \<open>\<open>x + y\<close> and \<open>x * y\<close> for a finite integer \<open>y\<close>.\<close>

fun js_add :: "number \<Rightarrow> int \<Rightarrow> number" where
  "js_add (Num a) b = to_number (a + b)"
| "js_add Infinity b = Infinity"
| "js_add NaN b = NaN"

fun js_times :: "number \<Rightarrow> int \<Rightarrow> number" where
  "js_times (Num a) b = to_number (a * b)"
| "js_times Infinity b = (if b = 0 then NaN else Infinity)"
| "js_times NaN b = NaN"

text \<open>\<open>Math.floor(x / y)\<close>.\<close>

fun floor_quotient :: "number \<Rightarrow> number \<Rightarrow> number" where
  "floor_quotient (Num a) (Num b) =
     (if b = 0 then (if a = 0 then NaN else Infinity)
      else if 0 < b then floor_double a b
      else floor_double (- a) (- b))"
| "floor_quotient (Num a) Infinity = Num 0"
| "floor_quotient Infinity (Num b) = Infinity"
| "floor_quotient Infinity Infinity = NaN"
| "floor_quotient NaN y = NaN"
| "floor_quotient x NaN = NaN"

text \<open>Decimal digits of a number, as \<open>Number.prototype.toString\<close> prints an integer.\<close>

function digits_of :: "nat \<Rightarrow> string" where
  "digits_of n =
     (if n < 10 then [''0123456789'' ! n] else digits_of (n div 10) @ [''0123456789'' ! (n mod 10)])"
  by pat_completeness auto
termination
  by (relation "measure id") auto

declare digits_of.simps [simp del]

definition padStart :: "nat \<Rightarrow> char \<Rightarrow> string \<Rightarrow> string" where
  "padStart n c s = replicate (n - length s) c @ s"

text \<open>A byte read from a buffer; out of range JavaScript reads \<open>undefined\<close>, 0 under \<open>&\<close>.\<close>

definition byte_at :: "8 word list \<Rightarrow> int \<Rightarrow> 32 word" where
  "byte_at buf i = (if 0 \<le> i \<and> i < int (length buf) then ucast (buf ! nat i) else 0)"

definition counter_buffer :: "int \<Rightarrow> 8 word list" where
  "counter_buffer counter =
     map (\<lambda>i. word_of_int (counter div 2 ^ (8 * (7 - i)))) [0, 1, 2, 3, 4, 5, 6, 7]"

text \<open>
  \<open>generateOtp\<close>: \<open>BigInt\<close> throws a \<open>RangeError\<close> on a number that is not
  finite, \<open>writeBigUInt64BE\<close> throws one outside \<open>0 .. 2^64 - 1\<close>.
\<close>

definition generateOtp :: "externals \<Rightarrow> 8 word list \<Rightarrow> number \<Rightarrow> nat \<Rightarrow> error + string" where
  "generateOtp ext secret counter digits =
     (case counter of
        Infinity \<Rightarrow> Inl RangeError
      | NaN \<Rightarrow> Inl RangeError
      | Num c \<Rightarrow>
          if c < 0 \<or> 2 ^ 64 \<le> c then Inl RangeError
          else
            (let hmac = hmac_sha1 ext secret (counter_buffer c);
                 offset = uint (byte_at hmac (int (length hmac) - 1) AND 0xf);
                 binary = push_bit 24 (byte_at hmac offset AND 0x7f)
                          OR push_bit 16 (byte_at hmac (offset + 1) AND 0xff)
                          OR push_bit 8 (byte_at hmac (offset + 2) AND 0xff)
                          OR (byte_at hmac (offset + 3) AND 0xff)
             in Inr (padStart digits CHR ''0'' (digits_of (unat binary mod 10 ^ digits)))))"

fun totp_window :: "externals \<Rightarrow> 8 word list \<Rightarrow> number \<Rightarrow> nat \<Rightarrow> string \<Rightarrow> int list \<Rightarrow> error + bool" where
  "totp_window ext secretBuffer counter digits token [] = Inr False"
| "totp_window ext secretBuffer counter digits token (offset # rest) =
     (case generateOtp ext secretBuffer (js_add counter offset) digits of
        Inl e \<Rightarrow> Inl e
      | Inr expected \<Rightarrow>
          if expected = token then Inr True
          else totp_window ext secretBuffer counter digits token rest)"

text \<open>
  \<open>isValidTotpToken\<close> with its options spelled out; the service calls it with
  the defaults \<open>digits = 6\<close>, \<open>stepSeconds = 30\<close>, \<open>window = 1\<close> and the clock
  as \<open>timestamp\<close>. A negative window runs no iteration. An infinite window makes
  the first counter infinite or \<open>NaN\<close>, and \<open>generateOtp\<close> throws on it. The
  offsets of a finite window are counted exactly, as the source counts them for a
  window below \<open>2^53\<close>.
\<close>

definition isValidTotpToken ::
  "externals \<Rightarrow> string \<Rightarrow> string \<Rightarrow> nat \<Rightarrow> int \<Rightarrow> int \<Rightarrow> int \<Rightarrow> error + bool" where
  "isValidTotpToken ext secret token digits stepSeconds window timestamp =
     (if \<not> is_totp_shaped token then Inr False
      else
        (case base32Decode secret of
           None \<Rightarrow> Inl Base32Error
         | Some secretBuffer \<Rightarrow>
             (let counter = floor_quotient (to_number timestamp)
                              (js_times (to_number stepSeconds) 1000)
              in if window < 0 then Inr False
                 else
                   (case to_number window of
                      Num w \<Rightarrow> totp_window ext secretBuffer counter digits token [- w .. w]
                    | Infinity \<Rightarrow> Inl RangeError
                    | NaN \<Rightarrow> Inl RangeError))))"

definition generateTotp :: "externals \<Rightarrow> string \<Rightarrow> nat \<Rightarrow> int \<Rightarrow> int \<Rightarrow> error + string" where
  "generateTotp ext secret digits stepSeconds timestamp =
     (case base32Decode secret of
        None \<Rightarrow> Inl Base32Error
      | Some secretBuffer \<Rightarrow>
          generateOtp ext secretBuffer
            (floor_quotient (to_number timestamp) (js_times (to_number stepSeconds) 1000))
            digits)"

text \<open>\<open>generateBackupCodes\<close>: one draw of five random bytes per code.\<close>

fun generateBackupCodes :: "externals \<Rightarrow> nat \<Rightarrow> nat \<Rightarrow> string list" where
  "generateBackupCodes ext n 0 = []"
| "generateBackupCodes ext n (Suc k) =
     (let raw = take 8 (base32Encode (randomBytes ext n 5))
      in (take 4 raw @ ''-'' @ take 4 (drop 4 raw)) # generateBackupCodes ext (Suc n) k)"

section \<open>PrismaAuthRepository: password reset, MFA settings, challenges, codes, devices\<close>

definition consumePasswordResetToken ::
  "store \<Rightarrow> string \<Rightarrow> int \<Rightarrow> PasswordResetTokenRecord option \<times> store" where
  "consumePasswordResetToken s token consumedAt =
     (case findUnique (\<lambda>r. pr_token r = token) (passwordResetTokens s) of
        None \<Rightarrow> (None, s)
      | Some record \<Rightarrow>
          if pr_consumedAt record \<noteq> None then (None, s)
          else if pr_expiresAt record < consumedAt then (None, s)
          else (Some (record\<lparr>pr_consumedAt := Some consumedAt\<rparr>),
                s\<lparr>passwordResetTokens :=
                    updateMany (\<lambda>r. pr_token r = token)
                      (\<lambda>r. r\<lparr>pr_consumedAt := Some consumedAt\<rparr>) (passwordResetTokens s)\<rparr>))"

definition updatePasswordHash :: "store \<Rightarrow> string \<Rightarrow> string \<Rightarrow> int \<Rightarrow> error + store" where
  "updatePasswordHash s userId passwordHash when =
     (case update_row (\<lambda>c. pc_userId c = userId)
             (\<lambda>c. c\<lparr>pc_passwordHash := passwordHash, pc_updatedAt := Some when\<rparr>)
             (passwordCredentials s) of
        Inl e \<Rightarrow> Inl e
      | Inr rows \<Rightarrow> Inr (s\<lparr>passwordCredentials := rows\<rparr>))"

definition updateLastLogin :: "store \<Rightarrow> string \<Rightarrow> int \<Rightarrow> error + store" where
  "updateLastLogin s userId when =
     (case update_row (\<lambda>u. u_id u = userId) (\<lambda>u. u\<lparr>u_lastLoginAt := Some when\<rparr>) (users s) of
        Inl e \<Rightarrow> Inl e
      | Inr rows \<Rightarrow> Inr (s\<lparr>users := rows\<rparr>))"

definition getMfaConfiguration :: "store \<Rightarrow> string \<Rightarrow> MfaConfiguration option" where
  "getMfaConfiguration s userId = findUnique (\<lambda>m. mfa_userId m = userId) (mfaSettings s)"

text \<open>\<open>upsertMfaSetting\<close>; a created row takes its id from the random source.\<close>

definition upsertMfaSetting ::
  "externals \<Rightarrow> store \<Rightarrow> string \<Rightarrow> string \<Rightarrow> string option \<Rightarrow> int option
   \<Rightarrow> (error + MfaConfiguration) \<times> store" where
  "upsertMfaSetting ext s userId secretEncrypted deviceName activatedAt =
     (case findUnique (\<lambda>m. mfa_userId m = userId) (mfaSettings s) of
        Some m \<Rightarrow>
          (Inr (m\<lparr>mfa_secretEncrypted := secretEncrypted, mfa_deviceName := deviceName,
                  mfa_activatedAt := activatedAt\<rparr>),
           s\<lparr>mfaSettings :=
               updateMany (\<lambda>x. mfa_userId x = userId)
                 (\<lambda>x. x\<lparr>mfa_secretEncrypted := secretEncrypted, mfa_deviceName := deviceName,
                         mfa_activatedAt := activatedAt\<rparr>) (mfaSettings s)\<rparr>)
      | None \<Rightarrow>
          (let created = \<lparr>mfa_id = randomUUID ext (entropy s), mfa_userId = userId,
                          mfa_secretEncrypted = secretEncrypted, mfa_deviceName = deviceName,
                          mfa_activatedAt = activatedAt\<rparr>;
               s0 = s\<lparr>entropy := entropy s + 1\<rparr>
           in case create_row (\<lambda>x. mfa_id x = mfa_id created) created (mfaSettings s) of
                Inl e \<Rightarrow> (Inl e, s0)
              | Inr rows \<Rightarrow> (Inr created, s0\<lparr>mfaSettings := rows\<rparr>)))"

definition listMfaBackupCodes :: "store \<Rightarrow> string \<Rightarrow> MfaBackupCodeRecord list" where
  "listMfaBackupCodes s userMfaId = filter (\<lambda>c. bc_userMfaId c = userMfaId) (mfaBackupCodes s)"

text \<open>
  \<open>replaceMfaBackupCodes\<close>: \<open>deleteMany\<close> then \<open>createMany\<close> in one
  transaction; a clash of ids rolls the transaction back.
\<close>

definition replaceMfaBackupCodes :: "store \<Rightarrow> string \<Rightarrow> (string \<times> string) list \<Rightarrow> error + store" where
  "replaceMfaBackupCodes s userMfaId codes =
     (let kept = deleteMany (\<lambda>c. bc_userMfaId c = userMfaId) (mfaBackupCodes s)
      in if codes = [] then Inr (s\<lparr>mfaBackupCodes := kept\<rparr>)
         else if \<not> distinct (map fst codes) \<or> list_ex (\<lambda>c. bc_id c \<in> set (map fst codes)) kept
         then Inl PrismaP2002
         else Inr (s\<lparr>mfaBackupCodes :=
                      kept @ map (\<lambda>code. \<lparr>bc_id = fst code, bc_userMfaId = userMfaId,
                                          bc_codeHash = snd code, bc_usedAt = None\<rparr>) codes\<rparr>))"

definition markBackupCodeUsed :: "store \<Rightarrow> string \<Rightarrow> int \<Rightarrow> error + store" where
  "markBackupCodeUsed s cid when =
     (case update_row (\<lambda>c. bc_id c = cid) (\<lambda>c. c\<lparr>bc_usedAt := Some when\<rparr>) (mfaBackupCodes s) of
        Inl e \<Rightarrow> Inl e
      | Inr rows \<Rightarrow> Inr (s\<lparr>mfaBackupCodes := rows\<rparr>))"

definition createMfaChallenge ::
  "externals \<Rightarrow> store \<Rightarrow> string \<Rightarrow> string option \<Rightarrow> challenge_type \<Rightarrow> string option
   \<Rightarrow> string option \<Rightarrow> bool option \<Rightarrow> int \<Rightarrow> (error + MfaChallengeRecord) \<times> store" where
  "createMfaChallenge ext s userId userMfaId ctype secretEncrypted deviceName ctx expiresAt =
     (let created = \<lparr>ch_id = randomUUID ext (entropy s), ch_userId = userId,
                     ch_userMfaId = userMfaId, ch_type = ctype,
                     ch_secretEncrypted = secretEncrypted, ch_deviceName = deviceName,
                     ch_context = ctx, ch_expiresAt = expiresAt, ch_consumedAt = None,
                     ch_attempts = 0\<rparr>;
          s0 = s\<lparr>entropy := entropy s + 1\<rparr>
      in case create_row (\<lambda>x. ch_id x = ch_id created) created (mfaChallenges s) of
           Inl e \<Rightarrow> (Inl e, s0)
         | Inr rows \<Rightarrow> (Inr created, s0\<lparr>mfaChallenges := rows\<rparr>))"

definition findMfaChallengeById :: "store \<Rightarrow> string \<Rightarrow> MfaChallengeRecord option" where
  "findMfaChallengeById s cid = findUnique (\<lambda>c. ch_id c = cid) (mfaChallenges s)"

definition incrementMfaChallengeAttempts :: "store \<Rightarrow> string \<Rightarrow> int \<Rightarrow> error + store" where
  "incrementMfaChallengeAttempts s cid attempts =
     (case update_row (\<lambda>c. ch_id c = cid) (\<lambda>c. c\<lparr>ch_attempts := attempts\<rparr>) (mfaChallenges s) of
        Inl e \<Rightarrow> Inl e
      | Inr rows \<Rightarrow> Inr (s\<lparr>mfaChallenges := rows\<rparr>))"

text \<open>
  \<open>consumeMfaChallenge\<close>: \<open>update where { id }\<close>, whatever \<open>consumedAt\<close>
  was; P2025 is caught and becomes null.
\<close>

definition consumeMfaChallenge :: "store \<Rightarrow> string \<Rightarrow> int \<Rightarrow> MfaChallengeRecord option \<times> store" where
  "consumeMfaChallenge s cid when =
     (case update_row (\<lambda>c. ch_id c = cid) (\<lambda>c. c\<lparr>ch_consumedAt := Some when\<rparr>) (mfaChallenges s) of
        Inl e \<Rightarrow> (None, s)
      | Inr rows \<Rightarrow> (findUnique (\<lambda>c. ch_id c = cid) rows, s\<lparr>mfaChallenges := rows\<rparr>))"

definition deleteMfaChallenge :: "store \<Rightarrow> string \<Rightarrow> error + store" where
  "deleteMfaChallenge s cid =
     (case delete_row (\<lambda>c. ch_id c = cid) (mfaChallenges s) of
        Inl e \<Rightarrow> Inl e
      | Inr rows \<Rightarrow> Inr (s\<lparr>mfaChallenges := rows\<rparr>))"

definition listRememberedDevices :: "store \<Rightarrow> string \<Rightarrow> MfaRememberedDeviceRecord list" where
  "listRememberedDevices s userMfaId =
     filter (\<lambda>d. rd_userMfaId d = userMfaId) (mfaRememberedDevices s)"

definition updateRememberedDevice :: "store \<Rightarrow> string \<Rightarrow> int \<Rightarrow> error + store" where
  "updateRememberedDevice s did lastUsedAt =
     (case update_row (\<lambda>d. rd_id d = did) (\<lambda>d. d\<lparr>rd_lastUsedAt := Some lastUsedAt\<rparr>)
             (mfaRememberedDevices s) of
        Inl e \<Rightarrow> Inl e
      | Inr rows \<Rightarrow> Inr (s\<lparr>mfaRememberedDevices := rows\<rparr>))"

definition deleteExpiredRememberedDevices :: "store \<Rightarrow> string \<Rightarrow> int \<Rightarrow> store" where
  "deleteExpiredRememberedDevices s userMfaId now =
     s\<lparr>mfaRememberedDevices :=
        deleteMany (\<lambda>d. rd_userMfaId d = userMfaId \<and> rd_expiresAt d < now) (mfaRememberedDevices s)\<rparr>"

section \<open>AuthService: MFA challenges\<close>

definition getActiveMfaConfiguration :: "store \<Rightarrow> string \<Rightarrow> MfaConfiguration option" where
  "getActiveMfaConfiguration s userId =
     (case getMfaConfiguration s userId of
        None \<Rightarrow> None
      | Some config \<Rightarrow> if mfa_activatedAt config = None then None else Some config)"

text \<open>\<open>registerFailedMfaAttempt\<close> always throws; the result is the error thrown.\<close>

definition registerFailedMfaAttempt :: "Env \<Rightarrow> store \<Rightarrow> MfaChallengeRecord \<Rightarrow> error \<times> store" where
  "registerFailedMfaAttempt env s challenge =
     (let nextAttempts = ch_attempts challenge + 1
      in case incrementMfaChallengeAttempts s (ch_id challenge) nextAttempts of
           Inl e \<Rightarrow> (e, s)
         | Inr s1 \<Rightarrow>
             (let s2 = createAuditEvent s1 ''auth.mfa.challenge.failed'' (ch_userId challenge)
              in if MFA_MAX_ATTEMPTS env \<le> nextAttempts
                 then (case deleteMfaChallenge s2 (ch_id challenge) of
                         Inl e \<Rightarrow> (e, s2)
                       | Inr s3 \<Rightarrow> (AUTH_MFA_CHALLENGE_LOCKED, s3))
                 else (AUTH_MFA_CODE_INCORRECT, s2)))"

fun consumeBackupCode_loop ::
  "externals \<Rightarrow> int \<Rightarrow> string \<Rightarrow> string \<Rightarrow> MfaBackupCodeRecord list \<Rightarrow> store
   \<Rightarrow> (error + bool) \<times> store" where
  "consumeBackupCode_loop ext now userId code [] s = (Inr False, s)"
| "consumeBackupCode_loop ext now userId code (record # rest) s =
     (if bc_usedAt record \<noteq> None then consumeBackupCode_loop ext now userId code rest s
      else
        (case argon2_verify ext (bc_codeHash record) code of
           None \<Rightarrow> (Inl Argon2Rejected, s)
         | Some False \<Rightarrow> consumeBackupCode_loop ext now userId code rest s
         | Some True \<Rightarrow>
             (case markBackupCodeUsed s (bc_id record) now of
                Inl e \<Rightarrow> (Inl e, s)
              | Inr s1 \<Rightarrow> (Inr True, createAuditEvent s1 ''auth.mfa.backup-code.used'' userId))))"

definition consumeBackupCode ::
  "externals \<Rightarrow> int \<Rightarrow> store \<Rightarrow> string \<Rightarrow> string \<Rightarrow> string \<Rightarrow> (error + bool) \<times> store" where
  "consumeBackupCode ext now s userMfaId userId code =
     consumeBackupCode_loop ext now userId code (listMfaBackupCodes s userMfaId) s"

text \<open>The ids and hashes of the new backup codes, two draws per code.\<close>

fun hashBackupCodes :: "externals \<Rightarrow> nat \<Rightarrow> string list \<Rightarrow> (string \<times> string) list" where
  "hashBackupCodes ext n [] = []"
| "hashBackupCodes ext n (v # vs) =
     (randomUUID ext n, argon2_hash ext (n + 1) v) # hashBackupCodes ext (n + 2) vs"

definition completeSetupChallenge ::
  "externals \<Rightarrow> Env \<Rightarrow> int \<Rightarrow> store \<Rightarrow> MfaChallengeRecord \<Rightarrow> string
   \<Rightarrow> (error + string list \<times> int) \<times> store" where
  "completeSetupChallenge ext env now s challenge code =
     (case ch_secretEncrypted challenge of
        None \<Rightarrow> (Inl AUTH_MFA_CHALLENGE_INVALID, s)
      | Some secretEncrypted \<Rightarrow>
          if secretEncrypted = [] then (Inl AUTH_MFA_CHALLENGE_INVALID, s)
          else
            (case decrypt ext secretEncrypted (MFA_ENCRYPTION_KEY env) of
               None \<Rightarrow> (Inl DecryptFailed, s)
             | Some secret \<Rightarrow>
                 (case isValidTotpToken ext secret code 6 30 1 now of
                    Inl e \<Rightarrow> (Inl e, s)
                  | Inr False \<Rightarrow>
                      (case registerFailedMfaAttempt env s challenge of (e, s1) \<Rightarrow> (Inl e, s1))
                  | Inr True \<Rightarrow>
                      (case upsertMfaSetting ext s (ch_userId challenge) secretEncrypted
                              (ch_deviceName challenge) (Some now) of
                         (Inl e, s1) \<Rightarrow> (Inl e, s1)
                       | (Inr setting, s1) \<Rightarrow>
                           (let backupCodes =
                                  map toUpperCase
                                    (generateBackupCodes ext (entropy s1) BACKUP_CODE_COUNT);
                                hashedCodes =
                                  hashBackupCodes ext (entropy s1 + BACKUP_CODE_COUNT) backupCodes;
                                s2 = s1\<lparr>entropy := entropy s1 + 3 * BACKUP_CODE_COUNT\<rparr>
                            in case replaceMfaBackupCodes s2 (mfa_id setting) hashedCodes of
                                 Inl e \<Rightarrow> (Inl e, s2)
                               | Inr s3 \<Rightarrow>
                                   (case consumeMfaChallenge s3 (ch_id challenge) now of
                                      (consumed, s4) \<Rightarrow>
                                        (Inr (backupCodes, now),
                                         createAuditEvent s4 ''auth.mfa.setup.completed''
                                           (ch_userId challenge))))))))"

definition createRememberedDevice ::
  "externals \<Rightarrow> Env \<Rightarrow> int \<Rightarrow> store \<Rightarrow> string \<Rightarrow> (error + string \<times> int) \<times> store" where
  "createRememberedDevice ext env now s userMfaId =
     (let n = entropy s;
          v = randomToken ext n 32;
          tokenHash = argon2_hash ext (n + 1) v;
          expiresAt = now + MFA_REMEMBER_DEVICE_DAYS env * 24 * 60 * 60 * 1000;
          created = \<lparr>rd_id = randomUUID ext (n + 2), rd_userMfaId = userMfaId,
                     rd_tokenHash = tokenHash, rd_expiresAt = expiresAt, rd_lastUsedAt = None\<rparr>;
          s0 = s\<lparr>entropy := n + 3\<rparr>
      in case create_row (\<lambda>d. rd_id d = rd_id created) created (mfaRememberedDevices s) of
           Inl e \<Rightarrow> (Inl e, s0)
         | Inr rows \<Rightarrow> (Inr (v, expiresAt), s0\<lparr>mfaRememberedDevices := rows\<rparr>))"

text \<open>
  The factor check of \<open>completeLoginChallenge\<close> (the \<open>if (isTotp) ... else if ... else\<close>
  block): the result is \<open>usingBackupCode\<close>, or the error thrown.
\<close>

definition loginChallengeFactor ::
  "externals \<Rightarrow> Env \<Rightarrow> int \<Rightarrow> store \<Rightarrow> MfaChallengeRecord \<Rightarrow> MfaConfiguration \<Rightarrow> string
   \<Rightarrow> string \<Rightarrow> (error + bool) \<times> store" where
  "loginChallengeFactor ext env now s challenge setting secret code =
     (if is_totp_shaped code then
        (case isValidTotpToken ext secret code 6 30 1 now of
           Inl e \<Rightarrow> (Inl e, s)
         | Inr False \<Rightarrow> (case registerFailedMfaAttempt env s challenge of (e, s1) \<Rightarrow> (Inl e, s1))
         | Inr True \<Rightarrow> (Inr False, s))
      else if BACKUP_CODE_PATTERN (toUpperCase code) then
        (case consumeBackupCode ext now s (mfa_id setting) (ch_userId challenge) (toUpperCase code) of
           (Inl e, s1) \<Rightarrow> (Inl e, s1)
         | (Inr False, s1) \<Rightarrow>
             (case registerFailedMfaAttempt env s1 challenge of (e, s2) \<Rightarrow> (Inl e, s2))
         | (Inr True, s1) \<Rightarrow> (Inr True, s1))
      else (case registerFailedMfaAttempt env s challenge of (e, s1) \<Rightarrow> (Inl e, s1)))"

definition completeLoginChallenge ::
  "externals \<Rightarrow> Env \<Rightarrow> int \<Rightarrow> store \<Rightarrow> string \<Rightarrow> string \<Rightarrow> bool
   \<Rightarrow> (error + AuthUser \<times> AuthTokens \<times> (string \<times> int) option) \<times> store" where
  "completeLoginChallenge ext env now s challengeId code rememberDevice =
     (case findMfaChallengeById s challengeId of
        None \<Rightarrow> (Inl AUTH_MFA_CHALLENGE_INVALID, s)
      | Some challenge \<Rightarrow>
          if ch_expiresAt challenge < now then
            (case deleteMfaChallenge s (ch_id challenge) of
               Inl e \<Rightarrow> (Inl e, s)
             | Inr s1 \<Rightarrow> (Inl AUTH_MFA_CHALLENGE_EXPIRED, s1))
          else
            (case getActiveMfaConfiguration s (ch_userId challenge) of
               None \<Rightarrow>
                 (case deleteMfaChallenge s (ch_id challenge) of
                    Inl e \<Rightarrow> (Inl e, s)
                  | Inr s1 \<Rightarrow> (Inl AUTH_MFA_CHALLENGE_INVALID, s1))
             | Some setting \<Rightarrow>
                 (case decrypt ext (mfa_secretEncrypted setting) (MFA_ENCRYPTION_KEY env) of
                    None \<Rightarrow> (Inl DecryptFailed, s)
                  | Some secret \<Rightarrow>
                      (case loginChallengeFactor ext env now s challenge setting secret code of
                         (Inl e, s1) \<Rightarrow> (Inl e, s1)
                       | (Inr usingBackupCode, s1) \<Rightarrow>
                           (case consumeMfaChallenge s1 (ch_id challenge) now of
                              (consumed, s2) \<Rightarrow>
                                (let rememberMe =
                                       (case consumed of
                                          None \<Rightarrow> False
                                        | Some c \<Rightarrow> ch_context c = Some True)
                                 in case findUserById s2 (ch_userId challenge) of
                                      None \<Rightarrow> (Inl AUTH_INVALID_CREDENTIALS, s2)
                                    | Some user \<Rightarrow>
                                        (case issueSession ext env now s2 user None rememberMe of
                                           (Inl e, s3) \<Rightarrow> (Inl e, s3)
                                         | (Inr tokens, s3) \<Rightarrow>
                                             (case (if rememberDevice \<and> \<not> usingBackupCode
                                                    then (case createRememberedDevice ext env now s3
                                                                 (mfa_id setting) of
                                                            (Inl e, s4) \<Rightarrow> (Inl e, s4)
                                                          | (Inr d, s4) \<Rightarrow> (Inr (Some d), s4))
                                                    else (Inr None, s3)) of
                                                (Inl e, s4) \<Rightarrow> (Inl e, s4)
                                              | (Inr rememberDeviceResult, s4) \<Rightarrow>
                                                  (case updateLastLogin s4 (u_id user) now of
                                                     Inl e \<Rightarrow> (Inl e, s4)
                                                   | Inr s5 \<Rightarrow>
                                                       (Inr (user, tokens, rememberDeviceResult),
                                                        createAuditEvent s5
                                                          ''auth.mfa.login.success''
                                                          (u_id user)))))))))))"

datatype VerifyMfaChallengeResult =
    VerifyMfaSetupResult "string list" int
  | VerifyMfaLoginResult AuthUser AuthTokens "(string \<times> int) option"

definition verifyMfaChallenge ::
  "externals \<Rightarrow> Env \<Rightarrow> int \<Rightarrow> store \<Rightarrow> string \<Rightarrow> string \<Rightarrow> bool
   \<Rightarrow> (error + VerifyMfaChallengeResult) \<times> store" where
  "verifyMfaChallenge ext env now s challengeId code rememberDevice =
     (case findMfaChallengeById s challengeId of
        None \<Rightarrow> (Inl AUTH_MFA_CHALLENGE_INVALID, s)
      | Some challenge \<Rightarrow>
          if ch_expiresAt challenge < now then
            (case deleteMfaChallenge s (ch_id challenge) of
               Inl e \<Rightarrow> (Inl e, s)
             | Inr s1 \<Rightarrow> (Inl AUTH_MFA_CHALLENGE_EXPIRED, s1))
          else if ch_consumedAt challenge \<noteq> None then (Inl AUTH_MFA_CHALLENGE_INVALID, s)
          else if ch_type challenge = Setup then
            (case completeSetupChallenge ext env now s challenge code of
               (Inl e, s1) \<Rightarrow> (Inl e, s1)
             | (Inr (backupCodes, activatedAt), s1) \<Rightarrow>
                 (Inr (VerifyMfaSetupResult backupCodes activatedAt), s1))
          else if ch_type challenge = Login then
            (case completeLoginChallenge ext env now s challengeId code rememberDevice of
               (Inl e, s1) \<Rightarrow> (Inl e, s1)
             | (Inr (user, tokens, rd), s1) \<Rightarrow> (Inr (VerifyMfaLoginResult user tokens rd), s1))
          else (Inl AUTH_MFA_CHALLENGE_INVALID, s))"

section \<open>AuthService: login and password reset\<close>

fun validateRememberedDevice_loop ::
  "externals \<Rightarrow> int \<Rightarrow> string \<Rightarrow> MfaRememberedDeviceRecord list \<Rightarrow> store
   \<Rightarrow> (error + string option) \<times> store" where
  "validateRememberedDevice_loop ext now token [] s = (Inr None, s)"
| "validateRememberedDevice_loop ext now token (device # rest) s =
     (if rd_expiresAt device < now then validateRememberedDevice_loop ext now token rest s
      else if argon2_verify ext (rd_tokenHash device) token = Some True then
        (case updateRememberedDevice s (rd_id device) now of
           Inl e \<Rightarrow> (Inl e, s)
         | Inr s1 \<Rightarrow> (Inr (Some (rd_id device)), s1))
      else validateRememberedDevice_loop ext now token rest s)"

text \<open>
  \<open>validateRememberedDevice\<close>: a rejected \<open>argon2.verify\<close> is caught here
  (\<open>.catch(() => false)\<close>) and counts as no match.
\<close>

definition validateRememberedDevice ::
  "externals \<Rightarrow> int \<Rightarrow> store \<Rightarrow> MfaConfiguration \<Rightarrow> string option
   \<Rightarrow> (error + string option) \<times> store" where
  "validateRememberedDevice ext now s setting token =
     (case token of
        None \<Rightarrow> (Inr None, s)
      | Some t \<Rightarrow>
          if t = [] then (Inr None, s)
          else
            (case validateRememberedDevice_loop ext now t
                    (listRememberedDevices s (mfa_id setting)) s of
               (Inl e, s1) \<Rightarrow> (Inl e, s1)
             | (Inr matchedId, s1) \<Rightarrow>
                 (Inr matchedId, deleteExpiredRememberedDevices s1 (mfa_id setting) now)))"

record LoginInput =
  li_email :: string
  li_password :: string
  li_rememberMe :: "bool option"
  li_challengeId :: "string option"
  li_mfaCode :: "string option"
  li_rememberDevice :: "bool option"
  li_rememberedDeviceToken :: "string option"

datatype LoginResult =
    LoginSuccessResult AuthUser AuthTokens bool "(string \<times> int) option"
  | LoginChallengeResult string int

definition truthy_string :: "string option \<Rightarrow> bool" where
  "truthy_string v = (case v of None \<Rightarrow> False | Some x \<Rightarrow> x \<noteq> [])"

definition truthy_bool :: "bool option \<Rightarrow> bool" where
  "truthy_bool v = (case v of None \<Rightarrow> False | Some b \<Rightarrow> b)"

definition normalizeEmail :: "string \<Rightarrow> string" where
  "normalizeEmail v = toLowerCase (trim v)"

text \<open>The direct issuance of \<open>login\<close> (no MFA, or a remembered device).\<close>

definition loginIssue ::
  "externals \<Rightarrow> Env \<Rightarrow> int \<Rightarrow> store \<Rightarrow> AuthUser \<Rightarrow> bool \<Rightarrow> (error + LoginResult) \<times> store" where
  "loginIssue ext env now s user rememberMe =
     (case issueSession ext env now s user None rememberMe of
        (Inl e, s1) \<Rightarrow> (Inl e, s1)
      | (Inr tokens, s1) \<Rightarrow>
          (case updateLastLogin s1 (u_id user) now of
             Inl e \<Rightarrow> (Inl e, s1)
           | Inr s2 \<Rightarrow>
               (Inr (LoginSuccessResult user tokens (u_emailVerifiedAt user \<noteq> None) None),
                createAuditEvent s2 ''auth.login'' (u_id user))))"

definition login ::
  "externals \<Rightarrow> Env \<Rightarrow> int \<Rightarrow> store \<Rightarrow> LoginInput \<Rightarrow> (error + LoginResult) \<times> store" where
  "login ext env now s input =
     (if truthy_string (li_challengeId input) \<and> truthy_string (li_mfaCode input) then
        (case completeLoginChallenge ext env now s (the (li_challengeId input))
                (the (li_mfaCode input)) (truthy_bool (li_rememberDevice input)) of
           (Inl e, s1) \<Rightarrow> (Inl e, s1)
         | (Inr (user, tokens, rd), s1) \<Rightarrow>
             (Inr (LoginSuccessResult user tokens (u_emailVerifiedAt user \<noteq> None) rd), s1))
      else
        (case findUserByEmail s (normalizeEmail (li_email input)) of
           None \<Rightarrow> (Inl AUTH_INVALID_CREDENTIALS, s)
         | Some (user, passwordHash) \<Rightarrow>
             (case argon2_verify ext passwordHash (li_password input) of
                None \<Rightarrow> (Inl Argon2Rejected, s)
              | Some False \<Rightarrow> (Inl AUTH_INVALID_CREDENTIALS, s)
              | Some True \<Rightarrow>
                  if u_status user = Suspended then (Inl AUTH_ACCOUNT_SUSPENDED, s)
                  else
                    (case getActiveMfaConfiguration s (u_id user) of
                       None \<Rightarrow> loginIssue ext env now s user (truthy_bool (li_rememberMe input))
                     | Some mfaConfig \<Rightarrow>
                         (case validateRememberedDevice ext now s mfaConfig
                                 (li_rememberedDeviceToken input) of
                            (Inl e, s1) \<Rightarrow> (Inl e, s1)
                          | (Inr (Some remembered), s1) \<Rightarrow>
                              loginIssue ext env now s1 user (truthy_bool (li_rememberMe input))
                          | (Inr None, s1) \<Rightarrow>
                              (case createMfaChallenge ext s1 (u_id user) (Some (mfa_id mfaConfig))
                                      Login None None
                                      (Some (truthy_bool (li_rememberMe input)))
                                      (now + MFA_CHALLENGE_TTL_SECONDS env * 1000) of
                                 (Inl e, s2) \<Rightarrow> (Inl e, s2)
                               | (Inr challenge, s2) \<Rightarrow>
                                   (Inr (LoginChallengeResult (ch_id challenge)
                                           (ch_expiresAt challenge)),
                                    createAuditEvent s2 ''auth.login.challenge'' (u_id user))))))))"

definition resetPassword ::
  "externals \<Rightarrow> Env \<Rightarrow> int \<Rightarrow> store \<Rightarrow> string \<Rightarrow> string \<Rightarrow> (error + AuthUser) \<times> store" where
  "resetPassword ext env now s token newPassword =
     (case consumePasswordResetToken s token now of
        (None, s1) \<Rightarrow> (Inl AUTH_RESET_TOKEN_INVALID, s1)
      | (Some record, s1) \<Rightarrow>
          (case findUserById s1 (pr_userId record) of
             None \<Rightarrow> (Inl AUTH_RESET_TOKEN_INVALID, s1)
           | Some user \<Rightarrow>
               (let newHash = argon2_hash ext (entropy s1) newPassword;
                    s2 = s1\<lparr>entropy := entropy s1 + 1\<rparr>
                in case updatePasswordHash s2 (u_id user) newHash now of
                     Inl e \<Rightarrow> (Inl e, s2)
                   | Inr s3 \<Rightarrow>
                       (Inr user,
                        createAuditEvent (revokeRefreshTokensForUser s3 (u_id user) now)
                          ''auth.password.reset'' (u_id user)))))"

section \<open>HMAC-SHA1 of node:crypto\<close>

text \<open>
  \<open>crypto.createHmac('sha1', key)\<close> as RFC 2104 and RFC 3174 define it, for
  evaluating the TOTP codec with the MAC the service runs on. Rotation is written
  with multiplication and division.
\<close>

definition rotl :: "nat \<Rightarrow> 32 word \<Rightarrow> 32 word" where
  "rotl n w = word_of_nat (unat w * 2 ^ n + unat w div 2 ^ (32 - n))"

definition be32 :: "8 word list \<Rightarrow> 32 word" where
  "be32 bs = foldl (\<lambda>acc b. push_bit 8 acc OR ucast b) 0 (take 4 bs)"

definition bytes_of32 :: "32 word \<Rightarrow> 8 word list" where
  "bytes_of32 w = [ucast (drop_bit 24 w), ucast (drop_bit 16 w), ucast (drop_bit 8 w), ucast w]"

definition bytes_of_len64 :: "nat \<Rightarrow> 8 word list" where
  "bytes_of_len64 n =
     map (\<lambda>i. ucast (drop_bit (8 * (7 - i)) (of_nat n :: 64 word))) [0, 1, 2, 3, 4, 5, 6, 7]"

definition sha1_pad :: "8 word list \<Rightarrow> 8 word list" where
  "sha1_pad m =
     m @ [0x80] @ replicate ((119 - length m mod 64) mod 64) 0 @ bytes_of_len64 (8 * length m)"

fun words_be :: "8 word list \<Rightarrow> 32 word list" where
  "words_be (b0 # b1 # b2 # b3 # bs) = be32 [b0, b1, b2, b3] # words_be bs"
| "words_be bs = []"

definition sha1_f :: "nat \<Rightarrow> 32 word \<Rightarrow> 32 word \<Rightarrow> 32 word \<Rightarrow> 32 word" where
  "sha1_f t b c d =
     (if t < 20 then (b AND c) OR (NOT b AND d)
      else if t < 40 then b XOR c XOR d
      else if t < 60 then (b AND c) OR (b AND d) OR (c AND d)
      else b XOR c XOR d)"

definition sha1_k :: "nat \<Rightarrow> 32 word" where
  "sha1_k t =
     (if t < 20 then 0x5A827999 else if t < 40 then 0x6ED9EBA1
      else if t < 60 then 0x8F1BBCDC else 0xCA62C1D6)"

text \<open>The message schedule as a window of sixteen words, \<open>w t\<close> first.\<close>

definition sha1_next :: "32 word list \<Rightarrow> 32 word list" where
  "sha1_next w = tl w @ [rotl 1 (w ! 13 XOR w ! 8 XOR w ! 2 XOR w ! 0)]"

type_synonym sha1_state = "32 word \<times> 32 word \<times> 32 word \<times> 32 word \<times> 32 word"

function sha1_rounds :: "nat \<Rightarrow> 32 word list \<Rightarrow> sha1_state \<Rightarrow> sha1_state" where
  "sha1_rounds t w (a, b, c, d, e) =
     (if 80 \<le> t then (a, b, c, d, e)
      else sha1_rounds (t + 1) (sha1_next w)
             (rotl 5 a + sha1_f t b c d + e + sha1_k t + hd w, a, rotl 30 b, c, d))"
  by pat_completeness auto
termination
  by (relation "measure (\<lambda>(t, w, st). 80 - t)") auto

declare sha1_rounds.simps [simp del]

fun sha1_add :: "sha1_state \<Rightarrow> sha1_state \<Rightarrow> sha1_state" where
  "sha1_add (h0, h1, h2, h3, h4) (a, b, c, d, e) = (h0 + a, h1 + b, h2 + c, h3 + d, h4 + e)"

definition sha1_block :: "sha1_state \<Rightarrow> 8 word list \<Rightarrow> sha1_state" where
  "sha1_block h blk = sha1_add h (sha1_rounds 0 (words_be blk) h)"

function sha1_blocks :: "sha1_state \<Rightarrow> 8 word list \<Rightarrow> sha1_state" where
  "sha1_blocks h m =
     (if length m < 64 then h else sha1_blocks (sha1_block h (take 64 m)) (drop 64 m))"
  by pat_completeness auto
termination
  by (relation "measure (\<lambda>(h, m). length m)") auto

declare sha1_blocks.simps [simp del]

definition sha1_init :: sha1_state where
  "sha1_init = (0x67452301, 0xEFCDAB89, 0x98BADCFE, 0x10325476, 0xC3D2E1F0)"

fun sha1_digest :: "sha1_state \<Rightarrow> 8 word list" where
  "sha1_digest (h0, h1, h2, h3, h4) = concat (map bytes_of32 [h0, h1, h2, h3, h4])"

definition sha1 :: "8 word list \<Rightarrow> 8 word list" where
  "sha1 m = sha1_digest (sha1_blocks sha1_init (sha1_pad m))"

definition hmac_key_block :: "8 word list \<Rightarrow> 8 word list" where
  "hmac_key_block key =
     (if 64 < length key then sha1 key @ replicate 44 0 else key @ replicate (64 - length key) 0)"

definition hmac_sha1_impl :: "8 word list \<Rightarrow> 8 word list \<Rightarrow> 8 word list" where
  "hmac_sha1_impl key msg =
     sha1 (map (\<lambda>b. b XOR 0x5c) (hmac_key_block key)
           @ sha1 (map (\<lambda>b. b XOR 0x36) (hmac_key_block key) @ msg))"

section \<open>Observations used in the theorems\<close>

text \<open>The stored refresh token \<open>tid\<close> exists and was revoked at instant \<open>t\<close>.\<close>

definition revoked_at :: "store \<Rightarrow> string \<Rightarrow> int \<Rightarrow> bool" where
  "revoked_at s tid t =
     (case findUnique (\<lambda>r. rt_id r = tid) (refreshTokens s) of
        None \<Rightarrow> False
      | Some r \<Rightarrow> rt_revokedAt r = Some t)"




text \<open>A stored backup code that is unused and whose hash verifies the given input.\<close>

definition unused_match :: "externals \<Rightarrow> string \<Rightarrow> MfaBackupCodeRecord \<Rightarrow> bool" where
  "unused_match ext code r =
     (bc_usedAt r = None \<and> argon2_verify ext (bc_codeHash r) code = Some True)"

text \<open>The number a buffer spells, most significant byte first.\<close>

definition be_value :: "8 word list \<Rightarrow> nat" where
  "be_value bs = foldl (\<lambda>acc b. acc * 256 + unat b) 0 bs"

text \<open>
  The backup code that spells a number of forty bits: its eight base-32 digits, most
  significant first, in two groups of four.
\<close>

definition code_of_value :: "nat \<Rightarrow> string" where
  "code_of_value N =
     map (\<lambda>j. BASE32_ALPHABET ! (N div 32 ^ (7 - j) mod 32)) [0, 1, 2, 3] @ ''-''
     @ map (\<lambda>j. BASE32_ALPHABET ! (N div 32 ^ (7 - j) mod 32)) [4, 5, 6, 7]"

section \<open>A concrete world for evaluation\<close>

text \<open>
  Stand-ins for the library functions, used where a theorem is evaluated at a
  concrete input: a hash that prefixes its input, a cipher that prefixes its input,
  and a MAC whose twenty bytes repeat the last byte of the message.
\<close>

definition ext0 :: externals where
  "ext0 = \<lparr>argon2_hash = (\<lambda>n p. ''$argon2id$'' @ p),
           argon2_verify = (\<lambda>h p. if take 10 h = ''$argon2id$'' then Some (drop 10 h = p) else None),
           randomToken = (\<lambda>n k. ''r'' @ digits_of n @ replicate k CHR ''x''),
           randomBytes = (\<lambda>n k. replicate k (of_nat (37 * n + 11))),
           randomUUID = (\<lambda>n. ''uuid-'' @ digits_of n),
           jwt_sign = (\<lambda>uid ttl. ''jwt.'' @ uid),
           decrypt = (\<lambda>payload key. if take 4 payload = ''enc:'' then Some (drop 4 payload) else None),
           hmac_sha1 = (\<lambda>key msg. replicate 20 (last msg))\<rparr>"

definition env0 :: Env where
  "env0 = \<lparr>ACCESS_TOKEN_TTL_SECONDS = 900,
           REFRESH_TOKEN_TTL_SECONDS = 2592000,
           MFA_CHALLENGE_TTL_SECONDS = 600,
           MFA_MAX_ATTEMPTS = 5,
           MFA_REMEMBER_DEVICE_DAYS = 30,
           MFA_ENCRYPTION_KEY = ''AAAAAAAAAAAAAAAAAAAAAAAAAAAAAAAAAAAAAAAAAAA=''\<rparr>"

definition now0 :: int where
  "now0 = 1700000000000"

definition alice :: AuthUser where
  "alice = \<lparr>u_id = ''u1'', u_email = ''alice@example.com'', u_status = Active,
            u_emailVerifiedAt = None, u_lastLoginAt = None\<rparr>"

definition bob :: AuthUser where
  "bob = \<lparr>u_id = ''u2'', u_email = ''bob@example.com'', u_status = Suspended,
          u_emailVerifiedAt = None, u_lastLoginAt = None\<rparr>"

definition carol :: AuthUser where
  "carol = \<lparr>u_id = ''u3'', u_email = ''carol@example.com'', u_status = Active,
            u_emailVerifiedAt = None, u_lastLoginAt = None\<rparr>"

definition token_row :: "string \<Rightarrow> string \<Rightarrow> string \<Rightarrow> int \<Rightarrow> int option \<Rightarrow> RefreshTokenRecord" where
  "token_row tid uid secret expiresAt revokedAt =
     \<lparr>rt_id = tid, rt_userId = uid, rt_tokenHash = ''$argon2id$'' @ secret, rt_issuedAt = 0,
      rt_expiresAt = expiresAt, rt_revokedAt = revokedAt, rt_replacedByTokenId = None\<rparr>"

definition challenge_row ::
  "string \<Rightarrow> string \<Rightarrow> string option \<Rightarrow> challenge_type \<Rightarrow> string option \<Rightarrow> int option
   \<Rightarrow> MfaChallengeRecord" where
  "challenge_row cid uid mid ctype secretEncrypted consumedAt =
     \<lparr>ch_id = cid, ch_userId = uid, ch_userMfaId = mid, ch_type = ctype,
      ch_secretEncrypted = secretEncrypted, ch_deviceName = None, ch_context = Some False,
      ch_expiresAt = now0 + 600000, ch_consumedAt = consumedAt, ch_attempts = 0\<rparr>"

definition alice_mfa :: MfaConfiguration where
  "alice_mfa = \<lparr>mfa_id = ''m1'', mfa_userId = ''u1'', mfa_secretEncrypted = ''enc:JBSWY3DPEHPK3PXP'',
                mfa_deviceName = None, mfa_activatedAt = Some (now0 - 100000)\<rparr>"

definition store0 :: store where
  "store0 = \<lparr>users = [alice, bob, carol],
             passwordCredentials =
               [\<lparr>pc_userId = ''u1'', pc_passwordHash = ''$argon2id$Sup3rSecurePass!'', pc_updatedAt = None\<rparr>,
                \<lparr>pc_userId = ''u2'', pc_passwordHash = ''$argon2id$hunter2hunter2'', pc_updatedAt = None\<rparr>,
                \<lparr>pc_userId = ''u3'', pc_passwordHash = ''not-a-hash'', pc_updatedAt = None\<rparr>],
             refreshTokens =
               [token_row ''t1'' ''u1'' ''s1'' (now0 + 1000) None,
                token_row ''t2'' ''u1'' ''s2'' (now0 + 1000) (Some (now0 - 5)),
                token_row ''t3'' ''u1'' ''s3'' now0 None,
                token_row ''t4'' ''u2'' ''s4'' (now0 + 1000) None],
             passwordResetTokens =
               [\<lparr>pr_userId = ''u1'', pr_token = ''reset-1'', pr_expiresAt = now0 + 1000,
                 pr_consumedAt = None\<rparr>,
                \<lparr>pr_userId = ''u1'', pr_token = ''reset-2'', pr_expiresAt = now0 + 1000,
                 pr_consumedAt = Some (now0 - 7)\<rparr>,
                \<lparr>pr_userId = ''u1'', pr_token = ''reset-3'', pr_expiresAt = now0 - 1,
                 pr_consumedAt = None\<rparr>],
             mfaSettings = [alice_mfa],
             mfaChallenges =
               [challenge_row ''c1'' ''u1'' (Some ''m1'') Login None (Some (now0 - 1000)),
                challenge_row ''c2'' ''u1'' (Some ''m1'') Login None None,
                challenge_row ''c3'' ''u3'' None Setup (Some ''enc:JBSWY3DPEHPK3PXP'') None],
             mfaBackupCodes =
               [\<lparr>bc_id = ''b1'', bc_userMfaId = ''m1'', bc_codeHash = ''$argon2id$WXYZ-6777'',
                 bc_usedAt = Some (now0 - 50000)\<rparr>,
                \<lparr>bc_id = ''b2'', bc_userMfaId = ''m1'', bc_codeHash = ''$argon2id$ABCD-2345'',
                 bc_usedAt = None\<rparr>],
             mfaRememberedDevices =
               [\<lparr>rd_id = ''d1'', rd_userMfaId = ''m1'', rd_tokenHash = ''garbage'',
                 rd_expiresAt = now0 + 1000, rd_lastUsedAt = None\<rparr>],
             auditEvents = [],
             entropy = 0\<rparr>"

text \<open>The stand-in library with a hash that forgets its input.\<close>

definition ext1 :: externals where
  "ext1 = ext0\<lparr>argon2_hash := \<lambda>salt p. ''$argon2id$''\<rparr>"

text \<open>The stand-in library with the MAC replaced by HMAC-SHA1 itself.\<close>

definition ext_sha1 :: externals where
  "ext_sha1 = ext0\<lparr>hmac_sha1 := hmac_sha1_impl\<rparr>"

section \<open>Lemmas about rows\<close>

lemma find_map_preserve:
  "(\<And>r. q (g r) = q r) \<Longrightarrow> find q (map g rows) = map_option g (find q rows)"
  by (induction rows) auto

lemma findUnique_updateMany:
  "(\<And>r. q (f r) = q r) \<Longrightarrow>
   findUnique q (updateMany p f rows) = map_option (\<lambda>r. if p r then f r else r) (findUnique q rows)"
  unfolding findUnique_def updateMany_def by (rule find_map_preserve) simp

lemma findUnique_None_iff: "findUnique p rows = None \<longleftrightarrow> \<not> list_ex p rows"
  by (auto simp: findUnique_def find_None_iff list_ex_iff)

lemma findUnique_append:
  "findUnique p (xs @ ys) = (case findUnique p xs of None \<Rightarrow> findUnique p ys | Some x \<Rightarrow> Some x)"
  unfolding findUnique_def by (induction xs) auto

lemma findUnique_Nil [simp]: "findUnique p [] = None"
  by (simp add: findUnique_def)

lemma findUnique_Cons [simp]: "findUnique p (x # xs) = (if p x then Some x else findUnique p xs)"
  by (simp add: findUnique_def)

lemma findUnique_Some_holds: "findUnique p rows = Some r \<Longrightarrow> p r"
  by (auto simp: findUnique_def find_Some_iff)

lemma findUnique_Some_ex: "findUnique p rows = Some r \<Longrightarrow> list_ex p rows"
  using findUnique_None_iff [of p rows] by auto

lemmas fixture_defs =
  ext0_def env0_def now0_def store0_def alice_def bob_def carol_def token_row_def
  challenge_row_def alice_mfa_def

section \<open>Session issuance\<close>

lemma revokeRefreshToken_found:
  assumes "findUnique (\<lambda>r. rt_id r = tid) (refreshTokens s) = Some r"
  shows "\<exists>s'. revokeRefreshToken s tid t rep = Inr s'
            \<and> findUnique (\<lambda>r. rt_id r = tid) (refreshTokens s')
                = Some (r\<lparr>rt_revokedAt := Some t, rt_replacedByTokenId := rep\<rparr>)
            \<and> users s' = users s"
  using assms findUnique_Some_ex[OF assms] findUnique_Some_holds[OF assms]
  by (simp add: revokeRefreshToken_def update_row_def findUnique_updateMany)

lemma findRefreshTokenById_SomeD:
  "findRefreshTokenById s tid = Some (r, u) \<Longrightarrow>
     findUnique (\<lambda>r. rt_id r = tid) (refreshTokens s) = Some r \<and> rt_id r = tid"
  by (auto simp: findRefreshTokenById_def split: option.splits dest: findUnique_Some_holds)

text \<open>
  C10. Whenever the new token id is not taken and a supplied previous token id is
  non-empty and stored, \<open>issueSession\<close> succeeds; the refresh token expires
  \<open>REFRESH_TOKEN_TTL_SECONDS\<close> after \<open>now\<close> when \<open>rememberMe\<close> is true and
  \<open>min REFRESH_TOKEN_TTL_SECONDS (7 days)\<close> after \<open>now\<close> otherwise, in the result
  and in the stored row; and a supplied previous token is stored as revoked at
  \<open>now\<close> with \<open>replacedByTokenId\<close> the id of the new token.
\<close>

theorem issueSession_ttl_and_chain:
  assumes fresh: "\<not> list_ex (\<lambda>r. rt_id r = randomUUID ext (entropy s + 1)) (refreshTokens s)"
    and prev: "\<forall>p. previousTokenId = Some p \<longrightarrow>
                 p \<noteq> [] \<and> list_ex (\<lambda>r. rt_id r = p) (refreshTokens s)"
  shows "\<exists>tokens s' row.
      issueSession ext env now s user previousTokenId rememberMe = (Inr tokens, s')
    \<and> refreshTokenExpiresAt tokens =
        now + (if rememberMe then REFRESH_TOKEN_TTL_SECONDS env
               else min (REFRESH_TOKEN_TTL_SECONDS env) (7 * 24 * 60 * 60)) * 1000
    \<and> findUnique (\<lambda>r. rt_id r = randomUUID ext (entropy s + 1)) (refreshTokens s') = Some row
    \<and> rt_expiresAt row = refreshTokenExpiresAt tokens
    \<and> rt_revokedAt row = None
    \<and> (\<forall>q. previousTokenId = Some q \<longrightarrow>
          (\<exists>old. findUnique (\<lambda>r. rt_id r = q) (refreshTokens s') = Some old
               \<and> rt_revokedAt old = Some now
               \<and> rt_replacedByTokenId old = Some (randomUUID ext (entropy s + 1))))"
proof (cases previousTokenId)
  case None
  then show ?thesis using fresh
    by (simp add: issueSession_def saveRefreshToken_def create_row_def Let_def
        refreshTtlSeconds_def findUnique_append findUnique_None_iff[THEN iffD2])
next
  case (Some q)
  with prev have q: "q \<noteq> []" "list_ex (\<lambda>r. rt_id r = q) (refreshTokens s)" by auto
  from q(2) fresh have ne: "q \<noteq> randomUUID ext (entropy s + 1)" by (auto simp: list_ex_iff)
  from q(2) obtain old0 where old0: "findUnique (\<lambda>r. rt_id r = q) (refreshTokens s) = Some old0"
    using findUnique_None_iff[of "\<lambda>r. rt_id r = q" "refreshTokens s"] by auto
  show ?thesis using Some q fresh ne old0 findUnique_Some_holds[OF old0]
    by (simp add: issueSession_def saveRefreshToken_def create_row_def Let_def
        refreshTtlSeconds_def revokeRefreshToken_def update_row_def
        findUnique_updateMany findUnique_append findUnique_None_iff[THEN iffD2])
qed

theorem issueSession_ttl_and_chain_witness:
  "\<exists>tokens s' row old.
      issueSession ext0 env0 now0 store0 alice (Some ''t1'') False = (Inr tokens, s')
    \<and> refreshTokenExpiresAt tokens = now0 + 604800000
    \<and> findUnique (\<lambda>r. rt_id r = ''uuid-1'') (refreshTokens s') = Some row
    \<and> rt_expiresAt row = now0 + 604800000
    \<and> findUnique (\<lambda>r. rt_id r = ''t1'') (refreshTokens s') = Some old
    \<and> rt_revokedAt old = Some now0
    \<and> rt_replacedByTokenId old = Some ''uuid-1''"
proof -
  have uuid: "randomUUID ext0 (entropy store0 + 1) = ''uuid-1''"
    by (simp add: fixture_defs digits_of.simps)
  have fresh: "\<not> list_ex (\<lambda>r. rt_id r = randomUUID ext0 (entropy store0 + 1)) (refreshTokens store0)"
    unfolding uuid by (simp add: fixture_defs)
  have prev: "\<forall>p. Some ''t1'' = Some p \<longrightarrow>
                p \<noteq> [] \<and> list_ex (\<lambda>r. rt_id r = p) (refreshTokens store0)"
    by (simp add: fixture_defs)
  from issueSession_ttl_and_chain [OF fresh prev, of env0 now0 alice False]
  show ?thesis unfolding uuid by (auto simp: env0_def)
qed

section \<open>Refresh\<close>

text \<open>
  C3. \<open>refreshSession\<close> classifies its failures in this order: a value that does
  not split on \<open>.\<close> into two non-empty segments is \<open>AUTH_INVALID_REFRESH_TOKEN\<close>;
  an unknown id is \<open>AUTH_INVALID_REFRESH_TOKEN\<close>; a revoked token is
  \<open>AUTH_REFRESH_TOKEN_REVOKED\<close> and the store is unchanged; an expired token is
  revoked and \<open>AUTH_REFRESH_TOKEN_EXPIRED\<close> raised; a secret that fails the hash is
  answered by revoking the token and \<open>AUTH_INVALID_REFRESH_TOKEN\<close>; a suspended
  owner is answered by revoking the token and \<open>AUTH_ACCOUNT_SUSPENDED\<close>.
\<close>

theorem refreshSession_failures:
  "(\<not> (\<exists>a b. split_on CHR ''.'' token = [a, b] \<and> a \<noteq> [] \<and> b \<noteq> []) \<longrightarrow>
      refreshSession ext env now s token = (Inl AUTH_INVALID_REFRESH_TOKEN, s))
 \<and> (split_on CHR ''.'' token = [tid, secret] \<and> tid \<noteq> [] \<and> secret \<noteq> [] \<longrightarrow>
      (findRefreshTokenById s tid = None \<longrightarrow>
         refreshSession ext env now s token = (Inl AUTH_INVALID_REFRESH_TOKEN, s))
    \<and> (\<forall>r u. findRefreshTokenById s tid = Some (r, u) \<longrightarrow>
         (rt_revokedAt r \<noteq> None \<longrightarrow>
            refreshSession ext env now s token = (Inl AUTH_REFRESH_TOKEN_REVOKED, s))
       \<and> (rt_revokedAt r = None \<and> rt_expiresAt r \<le> now \<longrightarrow>
            (\<exists>s'. refreshSession ext env now s token = (Inl AUTH_REFRESH_TOKEN_EXPIRED, s')
                \<and> revoked_at s' tid now))
       \<and> (rt_revokedAt r = None \<and> now < rt_expiresAt r
            \<and> argon2_verify ext (rt_tokenHash r) secret = Some False \<longrightarrow>
            (\<exists>s'. refreshSession ext env now s token = (Inl AUTH_INVALID_REFRESH_TOKEN, s')
                \<and> revoked_at s' tid now))
       \<and> (rt_revokedAt r = None \<and> now < rt_expiresAt r
            \<and> argon2_verify ext (rt_tokenHash r) secret = Some True
            \<and> u_status u = Suspended \<longrightarrow>
            (\<exists>s'. refreshSession ext env now s token = (Inl AUTH_ACCOUNT_SUSPENDED, s')
                \<and> revoked_at s' tid now))))"
proof (intro conjI impI allI)
  assume "\<not> (\<exists>a b. split_on CHR ''.'' token = [a, b] \<and> a \<noteq> [] \<and> b \<noteq> [])"
  then show "refreshSession ext env now s token = (Inl AUTH_INVALID_REFRESH_TOKEN, s)"
    by (auto simp: refreshSession_def parseCompositeToken_def split: list.splits)
next
  assume "split_on CHR ''.'' token = [tid, secret] \<and> tid \<noteq> [] \<and> secret \<noteq> []"
    "findRefreshTokenById s tid = None"
  then show "refreshSession ext env now s token = (Inl AUTH_INVALID_REFRESH_TOKEN, s)"
    by (simp add: refreshSession_def parseCompositeToken_def)
next
  fix r u
  assume "split_on CHR ''.'' token = [tid, secret] \<and> tid \<noteq> [] \<and> secret \<noteq> []"
    "findRefreshTokenById s tid = Some (r, u)" "rt_revokedAt r \<noteq> None"
  then show "refreshSession ext env now s token = (Inl AUTH_REFRESH_TOKEN_REVOKED, s)"
    by (auto simp add: refreshSession_def parseCompositeToken_def)
next
  fix r u
  assume a: "split_on CHR ''.'' token = [tid, secret] \<and> tid \<noteq> [] \<and> secret \<noteq> []"
    "findRefreshTokenById s tid = Some (r, u)" "rt_revokedAt r = None \<and> rt_expiresAt r \<le> now"
  from findRefreshTokenById_SomeD[OF a(2)] revokeRefreshToken_found[of tid s r now None]
  obtain s' where s': "revokeRefreshToken s (rt_id r) now None = Inr s'"
    "findUnique (\<lambda>r. rt_id r = tid) (refreshTokens s')
       = Some (r\<lparr>rt_revokedAt := Some now, rt_replacedByTokenId := None\<rparr>)" by auto
  with a show "\<exists>s'. refreshSession ext env now s token = (Inl AUTH_REFRESH_TOKEN_EXPIRED, s')
                \<and> revoked_at s' tid now"
    by (simp add: refreshSession_def parseCompositeToken_def revoked_at_def)
next
  fix r u
  assume a: "split_on CHR ''.'' token = [tid, secret] \<and> tid \<noteq> [] \<and> secret \<noteq> []"
    "findRefreshTokenById s tid = Some (r, u)"
    "rt_revokedAt r = None \<and> now < rt_expiresAt r
            \<and> argon2_verify ext (rt_tokenHash r) secret = Some False"
  from findRefreshTokenById_SomeD[OF a(2)] revokeRefreshToken_found[of tid s r now None]
  obtain s' where s': "revokeRefreshToken s (rt_id r) now None = Inr s'"
    "findUnique (\<lambda>r. rt_id r = tid) (refreshTokens s')
       = Some (r\<lparr>rt_revokedAt := Some now, rt_replacedByTokenId := None\<rparr>)" by auto
  with a show "\<exists>s'. refreshSession ext env now s token = (Inl AUTH_INVALID_REFRESH_TOKEN, s')
                \<and> revoked_at s' tid now"
    by (simp add: refreshSession_def parseCompositeToken_def revoked_at_def)
next
  fix r u
  assume a: "split_on CHR ''.'' token = [tid, secret] \<and> tid \<noteq> [] \<and> secret \<noteq> []"
    "findRefreshTokenById s tid = Some (r, u)"
    "rt_revokedAt r = None \<and> now < rt_expiresAt r
            \<and> argon2_verify ext (rt_tokenHash r) secret = Some True
            \<and> u_status u = Suspended"
  from findRefreshTokenById_SomeD[OF a(2)] revokeRefreshToken_found[of tid s r now None]
  obtain s' where s': "revokeRefreshToken s (rt_id r) now None = Inr s'"
    "findUnique (\<lambda>r. rt_id r = tid) (refreshTokens s')
       = Some (r\<lparr>rt_revokedAt := Some now, rt_replacedByTokenId := None\<rparr>)" by auto
  with a show "\<exists>s'. refreshSession ext env now s token = (Inl AUTH_ACCOUNT_SUSPENDED, s')
                \<and> revoked_at s' tid now"
    by (simp add: refreshSession_def parseCompositeToken_def revoked_at_def)
qed

lemma findRefreshTokenById_store0: 
  "findRefreshTokenById store0 ''t2'' = Some (token_row ''t2'' ''u1'' ''s2'' (now0 + 1000) (Some (now0 - 5)), alice)"
  "findRefreshTokenById store0 ''t3'' = Some (token_row ''t3'' ''u1'' ''s3'' now0 None, alice)"
  "findRefreshTokenById store0 ''t1'' = Some (token_row ''t1'' ''u1'' ''s1'' (now0 + 1000) None, alice)"
  "findRefreshTokenById store0 ''t4'' = Some (token_row ''t4'' ''u2'' ''s4'' (now0 + 1000) None, bob)"
  "findRefreshTokenById store0 ''zz'' = None"
  by (simp_all add: findRefreshTokenById_def findUserById_def store0_def token_row_def alice_def bob_def)

theorem refreshSession_failures_witness:
  "refreshSession ext0 env0 now0 store0 ''t1'' = (Inl AUTH_INVALID_REFRESH_TOKEN, store0)
 \<and> refreshSession ext0 env0 now0 store0 ''zz.s1'' = (Inl AUTH_INVALID_REFRESH_TOKEN, store0)
 \<and> refreshSession ext0 env0 now0 store0 ''t2.s2'' = (Inl AUTH_REFRESH_TOKEN_REVOKED, store0)
 \<and> (\<exists>s'. refreshSession ext0 env0 now0 store0 ''t3.s3'' = (Inl AUTH_REFRESH_TOKEN_EXPIRED, s')
        \<and> revoked_at s' ''t3'' now0)
 \<and> (\<exists>s'. refreshSession ext0 env0 now0 store0 ''t1.bad'' = (Inl AUTH_INVALID_REFRESH_TOKEN, s')
        \<and> revoked_at s' ''t1'' now0)
 \<and> (\<exists>s'. refreshSession ext0 env0 now0 store0 ''t4.s4'' = (Inl AUTH_ACCOUNT_SUSPENDED, s')
        \<and> revoked_at s' ''t4'' now0)"
proof (intro conjI)
  show "refreshSession ext0 env0 now0 store0 ''t1'' = (Inl AUTH_INVALID_REFRESH_TOKEN, store0)"
    using refreshSession_failures [of "''t1''" ext0 env0 now0 store0] by simp
  show "refreshSession ext0 env0 now0 store0 ''zz.s1'' = (Inl AUTH_INVALID_REFRESH_TOKEN, store0)"
    using refreshSession_failures [of "''zz.s1''" ext0 env0 now0 store0 "''zz''" "''s1''"]
    by (simp add: findRefreshTokenById_store0)
  show "refreshSession ext0 env0 now0 store0 ''t2.s2'' = (Inl AUTH_REFRESH_TOKEN_REVOKED, store0)"
    using refreshSession_failures [of "''t2.s2''" ext0 env0 now0 store0 "''t2''" "''s2''"]
    by (simp add: findRefreshTokenById_store0 token_row_def)
  show "\<exists>s'. refreshSession ext0 env0 now0 store0 ''t3.s3'' = (Inl AUTH_REFRESH_TOKEN_EXPIRED, s')
        \<and> revoked_at s' ''t3'' now0"
    using refreshSession_failures [of "''t3.s3''" ext0 env0 now0 store0 "''t3''" "''s3''"]
    by (simp add: findRefreshTokenById_store0 token_row_def)
  show "\<exists>s'. refreshSession ext0 env0 now0 store0 ''t1.bad'' = (Inl AUTH_INVALID_REFRESH_TOKEN, s')
        \<and> revoked_at s' ''t1'' now0"
    using refreshSession_failures [of "''t1.bad''" ext0 env0 now0 store0 "''t1''" "''bad''"]
    by (simp add: findRefreshTokenById_store0 token_row_def ext0_def)
  show "\<exists>s'. refreshSession ext0 env0 now0 store0 ''t4.s4'' = (Inl AUTH_ACCOUNT_SUSPENDED, s')
        \<and> revoked_at s' ''t4'' now0"
    using refreshSession_failures [of "''t4.s4''" ext0 env0 now0 store0 "''t4''" "''s4''"]
    by (simp add: findRefreshTokenById_store0 token_row_def ext0_def bob_def)
qed

section \<open>Counters in the exact range of doubles\<close>

lemma bit_length_bounds: "0 < n \<Longrightarrow> 2 ^ (bit_length n - 1) \<le> n \<and> n < 2 ^ bit_length n"
proof (induction n rule: bit_length.induct)
  case (1 n)
  show ?case
  proof (cases "n = 1")
    case True
    then show ?thesis by (simp add: bit_length.simps)
  next
    case False
    with 1 have h: "0 < n div 2" by simp
    then have ih: "2 ^ (bit_length (n div 2) - 1) \<le> n div 2" "n div 2 < 2 ^ bit_length (n div 2)"
      using 1 by simp_all
    have pos: "0 < bit_length (n div 2)" using h by (subst bit_length.simps) simp
    have bl: "bit_length n = Suc (bit_length (n div 2))" using 1(2) by (subst bit_length.simps) simp
    have "2 * 2 ^ (bit_length (n div 2) - 1) \<le> n" using ih(1) by linarith
    moreover have "2 * 2 ^ (bit_length (n div 2) - 1) = (2::int) ^ bit_length (n div 2)"
      using pos by (cases "bit_length (n div 2)") simp_all
    moreover have "n < 2 * 2 ^ bit_length (n div 2)" using ih(2) by linarith
    ultimately show ?thesis by (simp add: bl)
  qed
qed


lemma floor_log2_lower:
  assumes "0 < p" "0 < q"
  shows "q * 2 ^ nat (floor_log2 p q) \<le> p * 2 ^ nat (- floor_log2 p q)"
proof -
  let ?d = "int (bit_length p) - int (bit_length q)"
  show ?thesis
  proof (cases "q * 2 ^ nat ?d \<le> p * 2 ^ nat (- ?d)")
    case True
    then show ?thesis by (simp add: floor_log2_def Let_def)
  next
    case False
    then have fl: "floor_log2 p q = ?d - 1" by (simp add: floor_log2_def Let_def)
    have bp: "2 ^ (bit_length p - 1) \<le> p" and bq: "q < 2 ^ bit_length q"
      using bit_length_bounds assms by blast+
    have lp: "0 < bit_length p" using assms(1) by (subst bit_length.simps) simp
    show ?thesis
    proof (cases "bit_length q < bit_length p")
      case True
      then have n: "nat (?d - 1) = bit_length p - 1 - bit_length q" "nat (- (?d - 1)) = 0"
        by auto
      have "q * 2 ^ (bit_length p - 1 - bit_length q)
            \<le> 2 ^ bit_length q * 2 ^ (bit_length p - 1 - bit_length q)"
        using bq by (simp add: mult_right_mono)
      also have "\<dots> = 2 ^ (bit_length p - 1)"
        using True by (simp flip: power_add)
      finally show ?thesis using bp unfolding fl n by simp
    next
      case False
      then have n: "nat (?d - 1) = 0" "nat (- (?d - 1)) = bit_length q + 1 - bit_length p"
        by auto
      have "q \<le> 2 ^ bit_length q" using bq by simp
      also have "\<dots> = 2 ^ (bit_length p - 1) * 2 ^ (bit_length q + 1 - bit_length p)"
        using False lp by (simp flip: power_add)
      also have "\<dots> \<le> p * 2 ^ (bit_length q + 1 - bit_length p)"
        using bp by (simp add: mult_right_mono)
      finally show ?thesis unfolding fl n by simp
    qed
  qed
qed

lemma bit_length_le: "0 < n \<Longrightarrow> n < 2 ^ k \<Longrightarrow> bit_length n \<le> k"
proof (rule ccontr)
  assume n: "0 < n" "n < 2 ^ k" and "\<not> bit_length n \<le> k"
  then have "k \<le> bit_length n - 1" by simp
  then have "(2::int) ^ k \<le> 2 ^ (bit_length n - 1)" by (rule power_increasing) simp
  also have "\<dots> \<le> n" using bit_length_bounds [OF n(1)] by simp
  finally show False using n(2) by simp
qed

lemma floor_log2_upper:
  assumes "0 < p" "0 < q" "p < 2 ^ 53"
  shows "floor_log2 p q \<le> 52"
proof -
  have "bit_length p \<le> 53" using assms by (intro bit_length_le) simp_all
  moreover have "0 < bit_length q" using assms(2) by (subst bit_length.simps) simp
  ultimately have "int (bit_length p) - int (bit_length q) \<le> 52" by simp
  then show ?thesis by (simp add: floor_log2_def Let_def)
qed

lemma rne_div_bounds:
  assumes "0 < q"
  shows "p div q \<le> rne_div p q" "rne_div p q \<le> p div q + 1"
    "rne_div p q = p div q + 1 \<Longrightarrow> q \<le> 2 * (p mod q)"
  by (auto simp: rne_div_def split: if_splits)

lemma floor_log2_ge:
  assumes "0 < p" "0 < q" "q < 2 ^ 53"
  shows "- 53 \<le> floor_log2 p q"
proof -
  have "bit_length q \<le> 53" using assms by (intro bit_length_le) simp_all
  moreover have "0 < bit_length p" using assms(1) by (subst bit_length.simps) simp
  ultimately have "- 52 \<le> int (bit_length p) - int (bit_length q)" by simp
  then show ?thesis by (simp add: floor_log2_def Let_def)
qed

lemma div_scaled:
  fixes a b s m :: int
  assumes a: "0 \<le> a" and b: "0 < b" and s: "0 < s" and bs: "b < 2 * s"
    and lo: "(a * s) div b \<le> m" and hi: "m \<le> (a * s) div b + 1"
    and up: "m = (a * s) div b + 1 \<Longrightarrow> b \<le> 2 * ((a * s) mod b)"
  shows "m div s = a div b"
proof -
  let ?n = "a div b"
  let ?P = "a * s"
  have ab: "?n * b \<le> a" "a \<le> (?n + 1) * b - 1"
  proof -
    have e: "a = b * ?n + a mod b" by simp
    have m: "0 \<le> a mod b" "a mod b < b" using b by simp_all
    from e m have "b * ?n \<le> a" by linarith
    then show "?n * b \<le> a" by (simp add: mult.commute)
    from e m have "a \<le> b * ?n + b - 1" by linarith
    then show "a \<le> (?n + 1) * b - 1" by (simp add: algebra_simps)
  qed
  have "?n * s * b \<le> ?P"
    using mult_right_mono [OF ab(1), of s] s by (simp add: algebra_simps)
  then have "(?n * s * b) div b \<le> ?P div b" using b by (intro zdiv_mono1) simp_all
  then have low: "?n * s \<le> ?P div b" using b by simp
  have P: "?P \<le> (?n + 1) * s * b - s"
    using mult_right_mono [OF ab(2), of s] s by (simp add: algebra_simps)
  have Peq: "?P = b * (?P div b) + ?P mod b" by simp
  have modb: "0 \<le> ?P mod b" "?P mod b < b" using b by simp_all
  have high: "?P div b < (?n + 1) * s"
  proof (rule ccontr)
    assume "\<not> ?P div b < (?n + 1) * s"
    then have "(?n + 1) * s \<le> ?P div b" by simp
    then have "b * ((?n + 1) * s) \<le> b * (?P div b)" using b by (intro mult_left_mono) simp_all
    with Peq modb(1) have "b * ((?n + 1) * s) \<le> ?P" by linarith
    with P s show False by (simp add: algebra_simps)
  qed
  have mhigh: "m < (?n + 1) * s"
  proof (cases "m = ?P div b + 1")
    case False
    with hi have "m \<le> ?P div b" by simp
    with high show ?thesis by simp
  next
    case True
    show ?thesis
    proof (rule ccontr)
      assume "\<not> m < (?n + 1) * s"
      with True high have d: "?P div b = (?n + 1) * s - 1" by simp
      have "b * ((?n + 1) * s - 1) + ?P mod b \<le> (?n + 1) * s * b - s"
        using Peq P unfolding d by simp
      then have "?P mod b \<le> b - s" by (simp add: algebra_simps)
      moreover have "b \<le> 2 * (?P mod b)" using up True by simp
      ultimately show False using bs by simp
    qed
  qed
  from low lo have mlow: "?n * s \<le> m" by simp
  have "m = s * ?n + (m - ?n * s)" by (simp add: mult.commute)
  moreover have "0 \<le> m - ?n * s" using mlow by simp
  moreover have "m - ?n * s < s" using mhigh by (simp add: algebra_simps)
  ultimately show ?thesis by (rule int_div_pos_eq)
qed


lemma floor_double_exact:
  assumes a: "0 \<le> a" "a < 2 ^ 53" and b: "0 < b" "b < 2 ^ 53"
  shows "floor_double a b = Num (a div b)"
proof (cases "a = 0")
  case True
  then show ?thesis by (simp add: floor_double_def)
next
  case False
  with a have apos: "0 < a" by simp
  let ?fl = "floor_log2 a b"
  have fl: "- 53 \<le> ?fl" "?fl \<le> 52"
    using floor_log2_ge [OF apos b] floor_log2_upper [OF apos b(1) a(2)] by simp_all
  define k where "k = nat (52 - ?fl)"
  define s :: int where "s = 2 ^ k"
  have e: "max (?fl - 52) (- 1074) = - int k" using fl by (simp add: k_def)
  have s: "0 < s" by (simp add: s_def)
  have k: "k \<le> 105" using fl by (simp add: k_def)
  have lower: "b * 2 ^ nat ?fl \<le> a * 2 ^ nat (- ?fl)" by (rule floor_log2_lower [OF apos b(1)])
  have bs: "b < 2 * s"
  proof (cases "0 \<le> ?fl")
    case True
    then have "b * 2 ^ nat ?fl \<le> a" using lower by simp
    also have "a < 2 ^ 53" by (rule a(2))
    also have "(2::int) ^ 53 = 2 * s * 2 ^ nat ?fl"
    proof -
      have "Suc (k + nat ?fl) = 53" using True fl unfolding k_def by linarith
      then have "(2::int) ^ 53 = 2 ^ Suc (k + nat ?fl)" by simp
      then show ?thesis by (simp add: s_def power_add)
    qed
    finally show ?thesis by simp
  next
    case False
    then have "b \<le> a * 2 ^ nat (- ?fl)" using lower by simp
    also have "\<dots> < 2 ^ 53 * 2 ^ nat (- ?fl)" using a(2) by simp
    also have "\<dots> = 2 * s"
    proof -
      have "k = 52 + nat (- ?fl)" using False unfolding k_def by linarith
      then show ?thesis by (simp add: s_def power_add)
    qed
    finally show ?thesis .
  qed
  define m where "m = rne_div (a * s) b"
  have rd: "round_double a b = (m, - int k)"
    by (simp add: round_double_def Let_def e m_def s_def)
  have md: "m div s = a div b"
    unfolding m_def using rne_div_bounds [OF b(1), of "a * s"]
    by (intro div_scaled [OF a(1) b(1) s bs]) simp_all
  have "m < (a div b + 1) * s"
    using md s by (metis add.commute div_mult_mod_eq mult.commute  pos_mod_bound
        add_strict_left_mono distrib_left mult.right_neutral)
  also have "\<dots> \<le> 2 ^ 53 * s"
  proof -
    have "a div b \<le> a div 1" using a(1) b(1) by (intro zdiv_mono2) simp_all
    then have "a div b \<le> a" by simp
    then have "a div b + 1 \<le> 2 ^ 53" using a(2) by simp
    then show ?thesis using s by (simp add: mult_right_mono)
  qed
  also have "\<dots> \<le> 2 ^ 53 * 2 ^ 105"
  proof -
    have "s \<le> 2 ^ 105" unfolding s_def using k by (intro power_increasing) simp_all
    then show ?thesis by (intro mult_left_mono) simp_all
  qed
  also have "\<dots> < (2::int) ^ 1024" by simp
  finally have small: "\<not> 2 ^ 1024 \<le> m" by simp
  show ?thesis
    using apos small md by (simp add: floor_double_def rd s_def)
qed

lemma to_number_exact: "0 \<le> z \<Longrightarrow> z < 2 ^ 53 \<Longrightarrow> to_number z = Num z"
  using floor_double_exact [of z 1] by (simp add: to_number_def)

lemma js_add_exact: "0 \<le> a + b \<Longrightarrow> a + b < 2 ^ 53 \<Longrightarrow> js_add (Num a) b = Num (a + b)"
  by (simp add: to_number_exact)

lemma totp_counter_exact:
  assumes "0 < st" "0 \<le> t" "t < 2 ^ 53" "st * 1000 < 2 ^ 53"
  shows "floor_quotient (to_number t) (js_times (to_number st) 1000) = Num (t div (st * 1000))"
proof -
  have "st < 2 ^ 53" using assms(1,4) by simp
  then have "to_number st = Num st" using assms(1) by (simp add: to_number_exact)
  moreover have "to_number (st * 1000) = Num (st * 1000)"
    using assms(1,4) by (simp add: to_number_exact)
  moreover have "to_number t = Num t" using assms(2,3) by (rule to_number_exact)
  ultimately show ?thesis
    using assms by (simp add: floor_double_exact)
qed

section \<open>The concrete world\<close>

lemma window_offsets: "[- 1 .. 1] = [- 1, 0, 1 :: int]"
  by (simp add: upto_rec1)

lemma base32Decode_fixture:
  "base32Decode ''JBSWY3DPEHPK3PXP'' = Some [72, 101, 108, 108, 111, 33, 222, 173, 190, 239]"
  by (simp add: base32Decode_def toUpperCase_def upper_char_def is_base32_char_def char_between_def
      BASE32_ALPHABET_def Let_def)

lemma generateOtp_ext0:
  "generateOtp ext0 k (Num 56666665) 6 = Inr ''563369''"
  "generateOtp ext0 k (Num 56666666) 6 = Inr ''406378''"
  "generateOtp ext0 k (Num 56666667) 6 = Inr ''249387''"
  by (simp add: generateOtp_def ext0_def counter_buffer_def byte_at_def Let_def padStart_def,
      simp add: digits_of.simps)+

lemma isValidTotpToken_fixture:
  "isValidTotpToken ext0 ''JBSWY3DPEHPK3PXP'' ''406378'' 6 30 1 now0 = Inr True"
  "isValidTotpToken ext0 ''JBSWY3DPEHPK3PXP'' ''000000'' 6 30 1 now0 = Inr False"
  by (simp_all add: isValidTotpToken_def is_totp_shaped_def is_digit_def char_between_def
      base32Decode_fixture now0_def to_number_exact floor_double_exact window_offsets
      generateOtp_ext0)

section \<open>Consumed challenges\<close>

lemma is_totp_shaped_if_valid:
  "isValidTotpToken ext secret code d st w t = Inr True \<Longrightarrow> is_totp_shaped code"
  by (auto simp: isValidTotpToken_def split: if_splits)

lemma completeLoginChallenge_ignores_consumedAt:
  assumes ch: "findMfaChallengeById s cid = Some ch"
    and live: "\<not> ch_expiresAt ch < now"
    and setting: "getActiveMfaConfiguration s (ch_userId ch) = Some setting"
    and dec: "decrypt ext (mfa_secretEncrypted setting) (MFA_ENCRYPTION_KEY env) = Some secret"
    and valid: "isValidTotpToken ext secret code 6 30 1 now = Inr True"
    and user: "findUserById s (ch_userId ch) = Some user"
    and fresh: "\<not> list_ex (\<lambda>r. rt_id r = randomUUID ext (entropy s + 1)) (refreshTokens s)"
  shows "\<exists>tokens s'. completeLoginChallenge ext env now s cid code False
                        = (Inr (user, tokens, None), s')
           \<and> length (refreshTokens s') = length (refreshTokens s) + 1"
proof -
  have shaped: "is_totp_shaped code" using valid by (rule is_totp_shaped_if_valid)
  have cid: "ch_id ch = cid" "list_ex (\<lambda>c. ch_id c = cid) (mfaChallenges s)"
    using findUnique_Some_holds[OF ch[unfolded findMfaChallengeById_def]]
      findUnique_Some_ex[OF ch[unfolded findMfaChallengeById_def]] by auto
  have uex: "list_ex (\<lambda>u. u_id u = u_id user) (users s)" "u_id user = ch_userId ch"
    using findUnique_Some_holds[OF user[unfolded findUserById_def]]
      findUnique_Some_ex[OF user[unfolded findUserById_def]] by auto
  show ?thesis
    using assms shaped cid uex
    by (simp add: completeLoginChallenge_def loginChallengeFactor_def consumeMfaChallenge_def
        update_row_def findUserById_def issueSession_def saveRefreshToken_def create_row_def
        Let_def updateLastLogin_def createAuditEvent_def)
qed

lemma verifyMfaChallenge_consumed:
  assumes "findMfaChallengeById s cid = Some ch" "\<not> ch_expiresAt ch < now"
    "ch_consumedAt ch \<noteq> None"
  shows "verifyMfaChallenge ext env now s cid code rememberDevice
           = (Inl AUTH_MFA_CHALLENGE_INVALID, s)"
  using assms by (simp add: verifyMfaChallenge_def)

lemma store0_mfa:
  "findMfaChallengeById store0 ''c1''
     = Some (challenge_row ''c1'' ''u1'' (Some ''m1'') Login None (Some (now0 - 1000)))"
  "findMfaChallengeById store0 ''c2''
     = Some (challenge_row ''c2'' ''u1'' (Some ''m1'') Login None None)"
  "findMfaChallengeById store0 ''c3''
     = Some (challenge_row ''c3'' ''u3'' None Setup (Some ''enc:JBSWY3DPEHPK3PXP'') None)"
  "getActiveMfaConfiguration store0 ''u1'' = Some alice_mfa"
  "findUserById store0 ''u1'' = Some alice"
  "findUserById store0 ''u3'' = Some carol"
  by (simp_all add: findMfaChallengeById_def getActiveMfaConfiguration_def getMfaConfiguration_def
      findUserById_def store0_def challenge_row_def alice_def bob_def carol_def alice_mfa_def)

lemma decrypt_ext0: "decrypt ext0 (''enc:'' @ x) k = Some x"
  by (simp add: ext0_def)

lemma store0_fresh:
  "\<not> list_ex (\<lambda>r. rt_id r = randomUUID ext0 (entropy store0 + 1)) (refreshTokens store0)"
  by (simp add: store0_def ext0_def token_row_def digits_of.simps)

text \<open>
  C1. A login challenge that is consumed and not expired: \<open>verifyMfaChallenge\<close>
  answers \<open>AUTH_MFA_CHALLENGE_INVALID\<close> and leaves the store unchanged, but
  \<open>login\<close> carrying the same challenge id and the current code reaches
  \<open>completeLoginChallenge\<close>, which never reads \<open>consumedAt\<close>, and issues
  a session: the result is a \<open>LoginSuccessResult\<close> and a refresh token is stored.
\<close>

theorem login_accepts_consumed_challenge:
  "findMfaChallengeById store0 ''c1''
     = Some (challenge_row ''c1'' ''u1'' (Some ''m1'') Login None (Some (now0 - 1000)))
 \<and> verifyMfaChallenge ext0 env0 now0 store0 ''c1'' ''406378'' False
     = (Inl AUTH_MFA_CHALLENGE_INVALID, store0)
 \<and> (\<exists>tokens s'.
       login ext0 env0 now0 store0
         \<lparr>li_email = [], li_password = [], li_rememberMe = None, li_challengeId = Some ''c1'',
          li_mfaCode = Some ''406378'', li_rememberDevice = None, li_rememberedDeviceToken = None\<rparr>
         = (Inr (LoginSuccessResult alice tokens False None), s')
     \<and> length (refreshTokens s') = length (refreshTokens store0) + 1)"
proof (intro conjI)
  show "findMfaChallengeById store0 ''c1''
     = Some (challenge_row ''c1'' ''u1'' (Some ''m1'') Login None (Some (now0 - 1000)))"
    by (rule store0_mfa)
  show "verifyMfaChallenge ext0 env0 now0 store0 ''c1'' ''406378'' False
     = (Inl AUTH_MFA_CHALLENGE_INVALID, store0)"
    by (rule verifyMfaChallenge_consumed [OF store0_mfa(1)]) (simp_all add: challenge_row_def)
  have "\<exists>tokens s'. completeLoginChallenge ext0 env0 now0 store0 ''c1'' ''406378'' False
                        = (Inr (alice, tokens, None), s')
           \<and> length (refreshTokens s') = length (refreshTokens store0) + 1"
    using completeLoginChallenge_ignores_consumedAt
          [where secret = "''JBSWY3DPEHPK3PXP''" and setting = alice_mfa and user = alice,
           OF store0_mfa(1) _ _ _ isValidTotpToken_fixture(1) _ store0_fresh]
    by (simp add: challenge_row_def store0_mfa alice_mfa_def ext0_def)
  then show "\<exists>tokens s'.
       login ext0 env0 now0 store0
         \<lparr>li_email = [], li_password = [], li_rememberMe = None, li_challengeId = Some ''c1'',
          li_mfaCode = Some ''406378'', li_rememberDevice = None, li_rememberedDeviceToken = None\<rparr>
         = (Inr (LoginSuccessResult alice tokens False None), s')
     \<and> length (refreshTokens s') = length (refreshTokens store0) + 1"
    by (auto simp: login_def truthy_string_def truthy_bool_def alice_def)
qed

lemma digits_of_small [simp]: "n < 10 \<Longrightarrow> digits_of n = [''0123456789'' ! n]"
  by (simp add: digits_of.simps)

section \<open>Unconditional storage updates\<close>

text \<open>
  C2. The two storage updates are not conditional. \<open>consumeMfaChallenge\<close> on a
  challenge consumed earlier returns the row and overwrites \<open>consumedAt\<close>;
  two redemptions of one refresh token that both passed the checks of
  \<open>refreshSession\<close> before either revoked it both issue a pair: the second
  \<open>issueSession\<close> runs on the store the first one left, finds the token revoked,
  overwrites the revocation and leaves two live successors.
\<close>

theorem storage_updates_unconditional:
  "findMfaChallengeById store0 ''c1''
     = Some (challenge_row ''c1'' ''u1'' (Some ''m1'') Login None (Some (now0 - 1000)))
 \<and> (\<exists>s'. consumeMfaChallenge store0 ''c1'' now0
            = (Some (challenge_row ''c1'' ''u1'' (Some ''m1'') Login None (Some now0)), s')
        \<and> findMfaChallengeById s' ''c1''
            = Some (challenge_row ''c1'' ''u1'' (Some ''m1'') Login None (Some now0)))
 \<and> findRefreshTokenById store0 ''t1''
     = Some (token_row ''t1'' ''u1'' ''s1'' (now0 + 1000) None, alice)
 \<and> argon2_verify ext0 (rt_tokenHash (token_row ''t1'' ''u1'' ''s1'' (now0 + 1000) None)) ''s1''
     = Some True
 \<and> (\<exists>tokensA sA tokensB sB.
        refreshSession ext0 env0 now0 store0 ''t1.s1'' = (Inr (alice, tokensA), sA)
      \<and> revoked_at sA ''t1'' now0
      \<and> issueSession ext0 env0 now0 sA alice (Some ''t1'') False = (Inr tokensB, sB)
      \<and> refreshToken tokensA = ''uuid-1.'' @ randomToken ext0 0 48
      \<and> refreshToken tokensB = ''uuid-4.'' @ randomToken ext0 3 48
      \<and> findUnique (\<lambda>r. rt_id r = ''uuid-1'') (refreshTokens sB)
          = Some \<lparr>rt_id = ''uuid-1'', rt_userId = ''u1'',
                  rt_tokenHash = argon2_hash ext0 2 (randomToken ext0 0 48), rt_issuedAt = now0,
                  rt_expiresAt = now0 + 604800000, rt_revokedAt = None,
                  rt_replacedByTokenId = None\<rparr>
      \<and> findUnique (\<lambda>r. rt_id r = ''uuid-4'') (refreshTokens sB)
          = Some \<lparr>rt_id = ''uuid-4'', rt_userId = ''u1'',
                  rt_tokenHash = argon2_hash ext0 5 (randomToken ext0 3 48), rt_issuedAt = now0,
                  rt_expiresAt = now0 + 604800000, rt_revokedAt = None,
                  rt_replacedByTokenId = None\<rparr>)"
proof (intro conjI)
  show "findMfaChallengeById store0 ''c1''
     = Some (challenge_row ''c1'' ''u1'' (Some ''m1'') Login None (Some (now0 - 1000)))"
    by (rule store0_mfa)
  show "\<exists>s'. consumeMfaChallenge store0 ''c1'' now0
            = (Some (challenge_row ''c1'' ''u1'' (Some ''m1'') Login None (Some now0)), s')
        \<and> findMfaChallengeById s' ''c1''
            = Some (challenge_row ''c1'' ''u1'' (Some ''m1'') Login None (Some now0))"
    by (simp add: consumeMfaChallenge_def update_row_def updateMany_def findMfaChallengeById_def
        store0_def challenge_row_def)
  show "findRefreshTokenById store0 ''t1''
     = Some (token_row ''t1'' ''u1'' ''s1'' (now0 + 1000) None, alice)"
    by (rule findRefreshTokenById_store0)
  show "argon2_verify ext0 (rt_tokenHash (token_row ''t1'' ''u1'' ''s1'' (now0 + 1000) None)) ''s1''
     = Some True"
    by (simp add: ext0_def token_row_def)
  show "\<exists>tokensA sA tokensB sB.
        refreshSession ext0 env0 now0 store0 ''t1.s1'' = (Inr (alice, tokensA), sA)
      \<and> revoked_at sA ''t1'' now0
      \<and> issueSession ext0 env0 now0 sA alice (Some ''t1'') False = (Inr tokensB, sB)
      \<and> refreshToken tokensA = ''uuid-1.'' @ randomToken ext0 0 48
      \<and> refreshToken tokensB = ''uuid-4.'' @ randomToken ext0 3 48
      \<and> findUnique (\<lambda>r. rt_id r = ''uuid-1'') (refreshTokens sB)
          = Some \<lparr>rt_id = ''uuid-1'', rt_userId = ''u1'',
                  rt_tokenHash = argon2_hash ext0 2 (randomToken ext0 0 48), rt_issuedAt = now0,
                  rt_expiresAt = now0 + 604800000, rt_revokedAt = None,
                  rt_replacedByTokenId = None\<rparr>
      \<and> findUnique (\<lambda>r. rt_id r = ''uuid-4'') (refreshTokens sB)
          = Some \<lparr>rt_id = ''uuid-4'', rt_userId = ''u1'',
                  rt_tokenHash = argon2_hash ext0 5 (randomToken ext0 3 48), rt_issuedAt = now0,
                  rt_expiresAt = now0 + 604800000, rt_revokedAt = None,
                  rt_replacedByTokenId = None\<rparr>"
  proof -
    define sA where "sA = snd (refreshSession ext0 env0 now0 store0 ''t1.s1'')"
    define tokensA where "tokensA =
      \<lparr>accessToken = jwt_sign ext0 ''u1'' 900, accessTokenExpiresAt = now0 + 900000,
       refreshToken = ''uuid-1.'' @ randomToken ext0 0 48,
       refreshTokenExpiresAt = now0 + 604800000\<rparr>"
    define rowA where "rowA =
      \<lparr>rt_id = ''uuid-1'', rt_userId = ''u1'',
       rt_tokenHash = argon2_hash ext0 2 (randomToken ext0 0 48), rt_issuedAt = now0,
       rt_expiresAt = now0 + 604800000, rt_revokedAt = None, rt_replacedByTokenId = None\<rparr>"
    have fstA: "fst (refreshSession ext0 env0 now0 store0 ''t1.s1'') = Inr (alice, tokensA)"
      by (simp add: refreshSession_def parseCompositeToken_def findRefreshTokenById_def findUserById_def
          issueSession_def saveRefreshToken_def create_row_def revokeRefreshToken_def
          update_row_def updateMany_def Let_def createAuditEvent_def
          refreshTtlSeconds_def store0_def token_row_def ext0_def env0_def alice_def
          tokensA_def split: prod.splits)
    have A: "refreshSession ext0 env0 now0 store0 ''t1.s1'' = (Inr (alice, tokensA), sA)"
      using fstA by (simp add: sA_def prod_eq_iff)
    have rowsA: "refreshTokens sA =
        [(token_row ''t1'' ''u1'' ''s1'' (now0 + 1000) (Some now0))
           \<lparr>rt_replacedByTokenId := Some ''uuid-1''\<rparr>,
         token_row ''t2'' ''u1'' ''s2'' (now0 + 1000) (Some (now0 - 5)),
         token_row ''t3'' ''u1'' ''s3'' now0 None,
         token_row ''t4'' ''u2'' ''s4'' (now0 + 1000) None, rowA]"
      and entA: "entropy sA = 3"
      by (simp_all add: sA_def refreshSession_def parseCompositeToken_def findRefreshTokenById_def findUserById_def
          issueSession_def saveRefreshToken_def create_row_def revokeRefreshToken_def
          update_row_def updateMany_def Let_def createAuditEvent_def
          refreshTtlSeconds_def store0_def token_row_def ext0_def env0_def alice_def
          rowA_def split: prod.splits)
    have revA: "revoked_at sA ''t1'' now0"
      by (simp add: revoked_at_def rowsA token_row_def)
    define tokensB where "tokensB =
      \<lparr>accessToken = jwt_sign ext0 ''u1'' 900, accessTokenExpiresAt = now0 + 900000,
       refreshToken = ''uuid-4.'' @ randomToken ext0 3 48,
       refreshTokenExpiresAt = now0 + 604800000\<rparr>"
    define sB where "sB = snd (issueSession ext0 env0 now0 sA alice (Some ''t1'') False)"
    have fstB: "fst (issueSession ext0 env0 now0 sA alice (Some ''t1'') False) = Inr tokensB"
      by (simp add: issueSession_def saveRefreshToken_def create_row_def revokeRefreshToken_def
          update_row_def updateMany_def Let_def refreshTtlSeconds_def rowsA entA
          token_row_def rowA_def ext0_def env0_def alice_def tokensB_def)
    have B: "issueSession ext0 env0 now0 sA alice (Some ''t1'') False = (Inr tokensB, sB)"
      using fstB by (simp add: sB_def prod_eq_iff)
    have rowsB:
      "findUnique (\<lambda>r. rt_id r = ''uuid-1'') (refreshTokens sB) = Some rowA"
      "findUnique (\<lambda>r. rt_id r = ''uuid-4'') (refreshTokens sB)
          = Some \<lparr>rt_id = ''uuid-4'', rt_userId = ''u1'',
                  rt_tokenHash = argon2_hash ext0 5 (randomToken ext0 3 48), rt_issuedAt = now0,
                  rt_expiresAt = now0 + 604800000, rt_revokedAt = None,
                  rt_replacedByTokenId = None\<rparr>"
      by (simp_all add: sB_def issueSession_def saveRefreshToken_def create_row_def
          revokeRefreshToken_def update_row_def updateMany_def Let_def refreshTtlSeconds_def
          rowsA entA token_row_def rowA_def ext0_def env0_def alice_def)
    show ?thesis
      using A revA B rowsB by (auto simp: tokensA_def tokensB_def rowA_def)
  qed
qed

section \<open>Malformed password hashes\<close>

lemma login_propagates_argon2_rejection:
  assumes "\<not> (truthy_string (li_challengeId input) \<and> truthy_string (li_mfaCode input))"
    and "findUserByEmail s (normalizeEmail (li_email input)) = Some (user, passwordHash)"
    and "argon2_verify ext passwordHash (li_password input) = None"
  shows "login ext env now s input = (Inl Argon2Rejected, s)"
  using assms by (auto simp: login_def)

text \<open>
  C5. A user whose stored password hash is not a hash: \<open>argon2.verify\<close> rejects,
  \<open>login\<close> has no handler around it, and the rejection is what the caller sees,
  not \<open>AUTH_INVALID_CREDENTIALS\<close>. \<open>validateRememberedDevice\<close>, which catches the
  rejection, answers no match on a stored device hash of the same kind.
\<close>

theorem login_malformed_hash_propagates:
  "findUserByEmail store0 ''carol@example.com'' = Some (carol, ''not-a-hash'')
 \<and> argon2_verify ext0 ''not-a-hash'' ''Sup3rSecurePass!'' = None
 \<and> login ext0 env0 now0 store0
       \<lparr>li_email = ''carol@example.com'', li_password = ''Sup3rSecurePass!'', li_rememberMe = None,
        li_challengeId = None, li_mfaCode = None, li_rememberDevice = None,
        li_rememberedDeviceToken = None\<rparr>
     = (Inl Argon2Rejected, store0)
 \<and> argon2_verify ext0 ''garbage'' ''device-token'' = None
 \<and> fst (validateRememberedDevice ext0 now0 store0 alice_mfa (Some ''device-token'')) = Inr None"
proof (intro conjI)
  show u: "findUserByEmail store0 ''carol@example.com'' = Some (carol, ''not-a-hash'')"
    by (simp add: findUserByEmail_def store0_def alice_def bob_def carol_def)
  show v: "argon2_verify ext0 ''not-a-hash'' ''Sup3rSecurePass!'' = None"
    by (simp add: ext0_def)
  have n: "normalizeEmail ''carol@example.com'' = ''carol@example.com''"
    by (simp add: normalizeEmail_def trim_def toLowerCase_def lower_char_def is_space_def
        char_between_def)
  show "login ext0 env0 now0 store0
       \<lparr>li_email = ''carol@example.com'', li_password = ''Sup3rSecurePass!'', li_rememberMe = None,
        li_challengeId = None, li_mfaCode = None, li_rememberDevice = None,
        li_rememberedDeviceToken = None\<rparr>
     = (Inl Argon2Rejected, store0)"
    by (rule login_propagates_argon2_rejection [where user = carol and passwordHash = "''not-a-hash''"])
       (simp_all add: truthy_string_def n u v)
  show "argon2_verify ext0 ''garbage'' ''device-token'' = None"
    by (simp add: ext0_def)
  show "fst (validateRememberedDevice ext0 now0 store0 alice_mfa (Some ''device-token'')) = Inr None"
    by (simp add: validateRememberedDevice_def listRememberedDevices_def store0_def alice_mfa_def
        ext0_def now0_def)
qed

section \<open>Password reset\<close>

lemma split_on_no_delim: "d \<notin> set a \<Longrightarrow> split_on d a = [a]"
  by (induction a) auto

lemma split_on_two:
  "d \<notin> set a \<Longrightarrow> d \<notin> set b \<Longrightarrow> split_on d (a @ d # b) = [a, b]"
  by (induction a) (auto simp: split_on_no_delim)

lemma set_updateMany: "set (updateMany p f rows) = (\<lambda>r. if p r then f r else r) ` set rows"
  by (simp add: updateMany_def)

lemma refreshSession_revoked:
  assumes "split_on CHR ''.'' token = [tid, secret]" "tid \<noteq> []" "secret \<noteq> []"
    "findRefreshTokenById s tid = Some (r, u)" "rt_revokedAt r \<noteq> None"
  shows "refreshSession ext env now s token = (Inl AUTH_REFRESH_TOKEN_REVOKED, s)"
  using assms by (auto simp: refreshSession_def parseCompositeToken_def)

lemma resetPassword_success:
  assumes tok: "findUnique (\<lambda>r. pr_token r = token) (passwordResetTokens s) = Some rec"
    and fresh: "pr_consumedAt rec = None" "\<not> pr_expiresAt rec < now"
    and user: "findUserById s (pr_userId rec) = Some user"
    and cred: "list_ex (\<lambda>c. pc_userId c = u_id user) (passwordCredentials s)"
  shows "resetPassword ext env now s token newPassword =
     (Inr user,
      s\<lparr>passwordResetTokens :=
           updateMany (\<lambda>r. pr_token r = token) (\<lambda>r. r\<lparr>pr_consumedAt := Some now\<rparr>)
             (passwordResetTokens s),
        entropy := entropy s + 1,
        passwordCredentials :=
           updateMany (\<lambda>c. pc_userId c = u_id user)
             (\<lambda>c. c\<lparr>pc_passwordHash := argon2_hash ext (entropy s) newPassword,
                    pc_updatedAt := Some now\<rparr>) (passwordCredentials s),
        refreshTokens :=
           updateMany (\<lambda>r. rt_userId r = u_id user \<and> rt_revokedAt r = None)
             (\<lambda>r. r\<lparr>rt_revokedAt := Some now\<rparr>) (refreshTokens s),
        auditEvents := auditEvents s @ [\<lparr>ae_action = ''auth.password.reset'', ae_userId = u_id user\<rparr>]\<rparr>)"
  using assms
  by (simp add: resetPassword_def consumePasswordResetToken_def findUserById_def Let_def
      updatePasswordHash_def update_row_def revokeRefreshTokensForUser_def createAuditEvent_def)

text \<open>
  C9. With a reset token that is stored, unconsumed and unexpired, whose user exists
  and has a password credential, \<open>resetPassword\<close> succeeds, stores the hash of the
  new password, leaves no unrevoked refresh token of that user, and every refresh
  token the user held is answered \<open>AUTH_REFRESH_TOKEN_REVOKED\<close> from then on. With
  an unknown, consumed or expired token it raises \<open>AUTH_RESET_TOKEN_INVALID\<close> and
  the store is unchanged.
\<close>

theorem resetPassword_revokes_all:
  "(findUnique (\<lambda>r. pr_token r = token) (passwordResetTokens s) = Some rec
      \<and> pr_consumedAt rec = None \<and> \<not> pr_expiresAt rec < now
      \<and> findUserById s (pr_userId rec) = Some user
      \<and> list_ex (\<lambda>c. pc_userId c = u_id user) (passwordCredentials s) \<longrightarrow>
     (\<exists>s' cred.
        resetPassword ext env now s token newPassword = (Inr user, s')
      \<and> findUnique (\<lambda>c. pc_userId c = u_id user) (passwordCredentials s') = Some cred
      \<and> pc_passwordHash cred = argon2_hash ext (entropy s) newPassword
      \<and> (\<forall>r \<in> set (refreshTokens s'). rt_userId r = u_id user \<longrightarrow> rt_revokedAt r \<noteq> None)
      \<and> (\<forall>tid secret r u now'.
            findRefreshTokenById s tid = Some (r, u) \<and> rt_userId r = u_id user
            \<and> tid \<noteq> [] \<and> secret \<noteq> [] \<and> CHR ''.'' \<notin> set tid \<and> CHR ''.'' \<notin> set secret \<longrightarrow>
            refreshSession ext env now' s' (tid @ ''.'' @ secret)
              = (Inl AUTH_REFRESH_TOKEN_REVOKED, s'))))
 \<and> ((case findUnique (\<lambda>r. pr_token r = token) (passwordResetTokens s) of
        None \<Rightarrow> True
      | Some rec \<Rightarrow> pr_consumedAt rec \<noteq> None \<or> pr_expiresAt rec < now) \<longrightarrow>
     resetPassword ext env now s token newPassword = (Inl AUTH_RESET_TOKEN_INVALID, s))"
proof (intro conjI impI)
  assume a: "findUnique (\<lambda>r. pr_token r = token) (passwordResetTokens s) = Some rec
      \<and> pr_consumedAt rec = None \<and> \<not> pr_expiresAt rec < now
      \<and> findUserById s (pr_userId rec) = Some user
      \<and> list_ex (\<lambda>c. pc_userId c = u_id user) (passwordCredentials s)"
  define s' where "s' = snd (resetPassword ext env now s token newPassword)"
  have res: "resetPassword ext env now s token newPassword = (Inr user, s')"
    and creds: "passwordCredentials s' =
           updateMany (\<lambda>c. pc_userId c = u_id user)
             (\<lambda>c. c\<lparr>pc_passwordHash := argon2_hash ext (entropy s) newPassword,
                    pc_updatedAt := Some now\<rparr>) (passwordCredentials s)"
    and toks: "refreshTokens s' =
           updateMany (\<lambda>r. rt_userId r = u_id user \<and> rt_revokedAt r = None)
             (\<lambda>r. r\<lparr>rt_revokedAt := Some now\<rparr>) (refreshTokens s)"
    and us: "users s' = users s"
    using a by (simp_all add: s'_def resetPassword_success)
  from a obtain c0 where c0: "findUnique (\<lambda>c. pc_userId c = u_id user) (passwordCredentials s) = Some c0"
    using findUnique_None_iff[of "\<lambda>c. pc_userId c = u_id user" "passwordCredentials s"] by auto
  have cred: "\<exists>cred. findUnique (\<lambda>c. pc_userId c = u_id user) (passwordCredentials s') = Some cred
      \<and> pc_passwordHash cred = argon2_hash ext (entropy s) newPassword"
    using c0 findUnique_Some_holds[OF c0] by (simp add: creds findUnique_updateMany)
  have allrev: "\<forall>r \<in> set (refreshTokens s'). rt_userId r = u_id user \<longrightarrow> rt_revokedAt r \<noteq> None"
    by (auto simp: toks set_updateMany)
  have later: "\<forall>tid secret r u now'.
            findRefreshTokenById s tid = Some (r, u) \<and> rt_userId r = u_id user
            \<and> tid \<noteq> [] \<and> secret \<noteq> [] \<and> CHR ''.'' \<notin> set tid \<and> CHR ''.'' \<notin> set secret \<longrightarrow>
            refreshSession ext env now' s' (tid @ ''.'' @ secret)
              = (Inl AUTH_REFRESH_TOKEN_REVOKED, s')"
  proof (intro allI impI)
    fix tid secret r u now'
    assume b: "findRefreshTokenById s tid = Some (r, u) \<and> rt_userId r = u_id user
            \<and> tid \<noteq> [] \<and> secret \<noteq> [] \<and> CHR ''.'' \<notin> set tid \<and> CHR ''.'' \<notin> set secret"
    then have sp: "split_on CHR ''.'' (tid @ ''.'' @ secret) = [tid, secret]"
      by (simp add: split_on_two)
    from b have f: "findUnique (\<lambda>r. rt_id r = tid) (refreshTokens s) = Some r"
      and fu: "findUserById s (rt_userId r) = Some u"
      by (auto simp: findRefreshTokenById_def split: option.splits)
    let ?r' = "if rt_userId r = u_id user \<and> rt_revokedAt r = None
               then r\<lparr>rt_revokedAt := Some now\<rparr> else r"
    have "findRefreshTokenById s' tid = Some (?r', u)"
      using f fu by (auto simp: findRefreshTokenById_def toks findUnique_updateMany
          findUserById_def us)
    moreover have "rt_revokedAt ?r' \<noteq> None" using b by auto
    ultimately show "refreshSession ext env now' s' (tid @ ''.'' @ secret)
              = (Inl AUTH_REFRESH_TOKEN_REVOKED, s')"
      using b by (intro refreshSession_revoked[OF sp]) auto
  qed
  show "\<exists>s' cred.
        resetPassword ext env now s token newPassword = (Inr user, s')
      \<and> findUnique (\<lambda>c. pc_userId c = u_id user) (passwordCredentials s') = Some cred
      \<and> pc_passwordHash cred = argon2_hash ext (entropy s) newPassword
      \<and> (\<forall>r \<in> set (refreshTokens s'). rt_userId r = u_id user \<longrightarrow> rt_revokedAt r \<noteq> None)
      \<and> (\<forall>tid secret r u now'.
            findRefreshTokenById s tid = Some (r, u) \<and> rt_userId r = u_id user
            \<and> tid \<noteq> [] \<and> secret \<noteq> [] \<and> CHR ''.'' \<notin> set tid \<and> CHR ''.'' \<notin> set secret \<longrightarrow>
            refreshSession ext env now' s' (tid @ ''.'' @ secret)
              = (Inl AUTH_REFRESH_TOKEN_REVOKED, s'))"
    using res cred allrev later by blast
next
  assume "case findUnique (\<lambda>r. pr_token r = token) (passwordResetTokens s) of
        None \<Rightarrow> True
      | Some rec \<Rightarrow> pr_consumedAt rec \<noteq> None \<or> pr_expiresAt rec < now"
  then show "resetPassword ext env now s token newPassword = (Inl AUTH_RESET_TOKEN_INVALID, s)"
    by (auto simp: resetPassword_def consumePasswordResetToken_def split: option.splits)
qed

theorem resetPassword_revokes_all_witness:
  "(\<exists>s' cred.
      resetPassword ext0 env0 now0 store0 ''reset-1'' ''Diff3rentPass!'' = (Inr alice, s')
    \<and> findUnique (\<lambda>c. pc_userId c = ''u1'') (passwordCredentials s') = Some cred
    \<and> pc_passwordHash cred = ''$argon2id$Diff3rentPass!''
    \<and> refreshSession ext0 env0 (now0 + 1) s' ''t1.s1'' = (Inl AUTH_REFRESH_TOKEN_REVOKED, s'))
 \<and> resetPassword ext0 env0 now0 store0 ''reset-2'' ''Diff3rentPass!''
     = (Inl AUTH_RESET_TOKEN_INVALID, store0)
 \<and> resetPassword ext0 env0 now0 store0 ''reset-3'' ''Diff3rentPass!''
     = (Inl AUTH_RESET_TOKEN_INVALID, store0)
 \<and> resetPassword ext0 env0 now0 store0 ''unknown'' ''Diff3rentPass!''
     = (Inl AUTH_RESET_TOKEN_INVALID, store0)"
proof (intro conjI)
  let ?rec = "\<lparr>pr_userId = ''u1'', pr_token = ''reset-1'', pr_expiresAt = now0 + 1000,
               pr_consumedAt = None\<rparr>"
  have h: "findUnique (\<lambda>r. pr_token r = ''reset-1'') (passwordResetTokens store0) = Some ?rec
      \<and> pr_consumedAt ?rec = None \<and> \<not> pr_expiresAt ?rec < now0
      \<and> findUserById store0 (pr_userId ?rec) = Some alice
      \<and> list_ex (\<lambda>c. pc_userId c = u_id alice) (passwordCredentials store0)"
    by (simp add: store0_mfa) (simp add: store0_def alice_def)
  from resetPassword_revokes_all [of "''reset-1''" store0 ?rec now0 alice ext0 env0 "''Diff3rentPass!''",
      THEN conjunct1, rule_format, OF h]
  obtain s' cred where r:
      "resetPassword ext0 env0 now0 store0 ''reset-1'' ''Diff3rentPass!'' = (Inr alice, s')"
      "findUnique (\<lambda>c. pc_userId c = u_id alice) (passwordCredentials s') = Some cred"
      "pc_passwordHash cred = argon2_hash ext0 (entropy store0) ''Diff3rentPass!''"
      "\<forall>tid secret r u now'.
            findRefreshTokenById store0 tid = Some (r, u) \<and> rt_userId r = u_id alice
            \<and> tid \<noteq> [] \<and> secret \<noteq> [] \<and> CHR ''.'' \<notin> set tid \<and> CHR ''.'' \<notin> set secret \<longrightarrow>
            refreshSession ext0 env0 now' s' (tid @ ''.'' @ secret)
              = (Inl AUTH_REFRESH_TOKEN_REVOKED, s')"
    by blast
  from r(4) [rule_format, of "''t1''" _ _ "''s1''" "now0 + 1"] findRefreshTokenById_store0(3)
  have "refreshSession ext0 env0 (now0 + 1) s' ''t1.s1'' = (Inl AUTH_REFRESH_TOKEN_REVOKED, s')"
    by (simp add: token_row_def alice_def)
  with r show "\<exists>s' cred.
      resetPassword ext0 env0 now0 store0 ''reset-1'' ''Diff3rentPass!'' = (Inr alice, s')
    \<and> findUnique (\<lambda>c. pc_userId c = ''u1'') (passwordCredentials s') = Some cred
    \<and> pc_passwordHash cred = ''$argon2id$Diff3rentPass!''
    \<and> refreshSession ext0 env0 (now0 + 1) s' ''t1.s1'' = (Inl AUTH_REFRESH_TOKEN_REVOKED, s')"
    by (auto simp: alice_def ext0_def)
  show "resetPassword ext0 env0 now0 store0 ''reset-2'' ''Diff3rentPass!''
     = (Inl AUTH_RESET_TOKEN_INVALID, store0)"
    using resetPassword_revokes_all [of "''reset-2''" store0 _ now0 _ ext0 env0 "''Diff3rentPass!''"]
    by (simp add: store0_def)
  show "resetPassword ext0 env0 now0 store0 ''reset-3'' ''Diff3rentPass!''
     = (Inl AUTH_RESET_TOKEN_INVALID, store0)"
    using resetPassword_revokes_all [of "''reset-3''" store0 _ now0 _ ext0 env0 "''Diff3rentPass!''"]
    by (simp add: store0_def)
  show "resetPassword ext0 env0 now0 store0 ''unknown'' ''Diff3rentPass!''
     = (Inl AUTH_RESET_TOKEN_INVALID, store0)"
    using resetPassword_revokes_all [of "''unknown''" store0 _ now0 _ ext0 env0 "''Diff3rentPass!''"]
    by (simp add: store0_def)
qed

section \<open>Failed attempts and lockout\<close>














lemma toUpperCase_fixture:
  "toUpperCase ''wxyz-6777'' = ''WXYZ-6777''" "toUpperCase ''abcd-2345'' = ''ABCD-2345''"
  "toUpperCase ''ABCD-2345'' = ''ABCD-2345''"
  by code_simp+




section \<open>Backup codes and remembered devices\<close>

lemma backup_shape_not_totp: "BACKUP_CODE_PATTERN (toUpperCase code) \<Longrightarrow> \<not> is_totp_shaped code"
  by (auto simp: BACKUP_CODE_PATTERN_def is_totp_shaped_def toUpperCase_def)

lemma consumeBackupCode_loop_result:
  assumes "\<forall>r \<in> set recs. bc_usedAt r = None \<longrightarrow> argon2_verify ext (bc_codeHash r) code \<noteq> None"
    and "\<forall>r \<in> set recs. list_ex (\<lambda>c. bc_id c = bc_id r) (mfaBackupCodes s)"
  shows "consumeBackupCode_loop ext now uid code recs s =
     (case find (\<lambda>r. bc_usedAt r = None \<and> argon2_verify ext (bc_codeHash r) code = Some True) recs of
        None \<Rightarrow> (Inr False, s)
      | Some r \<Rightarrow>
          (Inr True,
           s\<lparr>mfaBackupCodes :=
                updateMany (\<lambda>c. bc_id c = bc_id r) (\<lambda>c. c\<lparr>bc_usedAt := Some now\<rparr>) (mfaBackupCodes s),
             auditEvents := auditEvents s @
                [\<lparr>ae_action = ''auth.mfa.backup-code.used'', ae_userId = uid\<rparr>]\<rparr>))"
  using assms
  by (induction recs)
     (auto simp: markBackupCodeUsed_def update_row_def createAuditEvent_def
           split: option.splits bool.splits)

lemma listMfaBackupCodes_in_table:
  "\<forall>r \<in> set (listMfaBackupCodes s mid). list_ex (\<lambda>c. bc_id c = bc_id r) (mfaBackupCodes s)"
  by (auto simp: listMfaBackupCodes_def list_ex_iff)

lemma consumeBackupCode_result:
  assumes "\<forall>r \<in> set (listMfaBackupCodes s mid).
             bc_usedAt r = None \<longrightarrow> argon2_verify ext (bc_codeHash r) code \<noteq> None"
  shows "consumeBackupCode ext now s mid uid code =
     (case find (unused_match ext code) (listMfaBackupCodes s mid) of
        None \<Rightarrow> (Inr False, s)
      | Some r \<Rightarrow>
          (Inr True,
           s\<lparr>mfaBackupCodes :=
                updateMany (\<lambda>c. bc_id c = bc_id r) (\<lambda>c. c\<lparr>bc_usedAt := Some now\<rparr>) (mfaBackupCodes s),
             auditEvents := auditEvents s @
                [\<lparr>ae_action = ''auth.mfa.backup-code.used'', ae_userId = uid\<rparr>]\<rparr>))"
  unfolding consumeBackupCode_def unused_match_def
  by (rule consumeBackupCode_loop_result [OF assms listMfaBackupCodes_in_table])

lemma completeLoginChallenge_after_factor:
  assumes ch: "findMfaChallengeById s cid = Some ch"
    and live: "\<not> ch_expiresAt ch < now"
    and setting: "getActiveMfaConfiguration s (ch_userId ch) = Some setting"
    and dec: "decrypt ext (mfa_secretEncrypted setting) (MFA_ENCRYPTION_KEY env) = Some secret"
    and factor: "loginChallengeFactor ext env now s ch setting secret code = (Inr usingBackupCode, s1)"
    and same: "mfaChallenges s1 = mfaChallenges s" "users s1 = users s"
      "refreshTokens s1 = refreshTokens s" "entropy s1 = entropy s"
      "mfaRememberedDevices s1 = mfaRememberedDevices s"
    and user: "findUserById s (ch_userId ch) = Some user"
    and fresh: "\<not> list_ex (\<lambda>r. rt_id r = randomUUID ext (entropy s + 1)) (refreshTokens s)"
    and freshd: "rememberDevice \<and> \<not> usingBackupCode \<longrightarrow>
       \<not> list_ex (\<lambda>d. rd_id d = randomUUID ext (entropy s + 5)) (mfaRememberedDevices s)"
  shows "\<exists>tokens s'.
      completeLoginChallenge ext env now s cid code rememberDevice
        = (Inr (user, tokens,
                if rememberDevice \<and> \<not> usingBackupCode
                then Some (randomToken ext (entropy s + 3) 32,
                           now + MFA_REMEMBER_DEVICE_DAYS env * 24 * 60 * 60 * 1000)
                else None), s')
    \<and> mfaRememberedDevices s' =
        (if rememberDevice \<and> \<not> usingBackupCode
         then mfaRememberedDevices s @
              [\<lparr>rd_id = randomUUID ext (entropy s + 5), rd_userMfaId = mfa_id setting,
                rd_tokenHash = argon2_hash ext (entropy s + 4) (randomToken ext (entropy s + 3) 32),
                rd_expiresAt = now + MFA_REMEMBER_DEVICE_DAYS env * 24 * 60 * 60 * 1000,
                rd_lastUsedAt = None\<rparr>]
         else mfaRememberedDevices s)
    \<and> mfaBackupCodes s' = mfaBackupCodes s1
    \<and> mfaSettings s' = mfaSettings s1
    \<and> length (refreshTokens s') = length (refreshTokens s) + 1
    \<and> (\<forall>c. findMfaChallengeById s' c = map_option (\<lambda>x. if ch_id x = cid then x\<lparr>ch_consumedAt := Some now\<rparr> else x) (findMfaChallengeById s c))"
proof -
  have cid: "ch_id ch = cid" "list_ex (\<lambda>c. ch_id c = cid) (mfaChallenges s)"
    using findUnique_Some_holds[OF ch[unfolded findMfaChallengeById_def]]
      findUnique_Some_ex[OF ch[unfolded findMfaChallengeById_def]] by auto
  have uex: "list_ex (\<lambda>u. u_id u = u_id user) (users s)" "u_id user = ch_userId ch"
    using findUnique_Some_holds[OF user[unfolded findUserById_def]]
      findUnique_Some_ex[OF user[unfolded findUserById_def]] by auto
  show ?thesis
    using assms cid uex
    by (simp add: completeLoginChallenge_def consumeMfaChallenge_def
        update_row_def findUserById_def issueSession_def saveRefreshToken_def create_row_def
        Let_def updateLastLogin_def createAuditEvent_def createRememberedDevice_def
        findMfaChallengeById_def findUnique_updateMany add.commute)
qed

lemma registerFailedMfaAttempt_Inl:
  "\<exists>e s1. (case registerFailedMfaAttempt env s ch of (e, s1) \<Rightarrow> (Inl e, s1)) = (Inl e, s1)"
  by (cases "registerFailedMfaAttempt env s ch") auto

lemma completeLoginChallenge_backup_rejected:
  assumes shape: "BACKUP_CODE_PATTERN (toUpperCase code)"
    and setting: "\<forall>c'. findMfaChallengeById s cid' = Some c' \<longrightarrow>
                    getActiveMfaConfiguration s (ch_userId c') = Some setting"
    and nomatch: "\<forall>r \<in> set (listMfaBackupCodes s (mfa_id setting)).
                    \<not> unused_match ext (toUpperCase code) r
                  \<and> (bc_usedAt r = None \<longrightarrow>
                       argon2_verify ext (bc_codeHash r) (toUpperCase code) \<noteq> None)"
  shows "\<exists>e s''. completeLoginChallenge ext env now s cid' code rd = (Inl e, s'')"
proof (cases "findMfaChallengeById s cid'")
  case None
  then show ?thesis by (simp add: completeLoginChallenge_def)
next
  case (Some c')
  have nt: "\<not> is_totp_shaped code" using shape by (rule backup_shape_not_totp)
  have none: "find (unused_match ext (toUpperCase code)) (listMfaBackupCodes s (mfa_id setting)) = None"
    using nomatch by (simp add: find_None_iff)
  have consume: "consumeBackupCode ext now s (mfa_id setting) (ch_userId c') (toUpperCase code)
                   = (Inr False, s)"
    using nomatch none by (subst consumeBackupCode_result) auto
  obtain e s1 where rf: "registerFailedMfaAttempt env s c' = (e, s1)"
    by (cases "registerFailedMfaAttempt env s c'")
  show ?thesis
    using Some setting nt shape consume rf
    by (auto simp: completeLoginChallenge_def loginChallengeFactor_def
        split: sum.splits option.splits)
qed

lemma verifyMfaChallenge_backup_rejected:
  assumes shape: "BACKUP_CODE_PATTERN (toUpperCase code)"
    and setting: "\<forall>c'. findMfaChallengeById s cid' = Some c' \<longrightarrow>
                    getActiveMfaConfiguration s (ch_userId c') = Some setting"
    and nomatch: "\<forall>r \<in> set (listMfaBackupCodes s (mfa_id setting)).
                    \<not> unused_match ext (toUpperCase code) r
                  \<and> (bc_usedAt r = None \<longrightarrow>
                       argon2_verify ext (bc_codeHash r) (toUpperCase code) \<noteq> None)"
  shows "\<exists>e s''. verifyMfaChallenge ext env now s cid' code rd = (Inl e, s'')"
proof (cases "findMfaChallengeById s cid'")
  case None
  then show ?thesis by (simp add: verifyMfaChallenge_def)
next
  case (Some c')
  have nt: "\<not> is_totp_shaped code" using shape by (rule backup_shape_not_totp)
  obtain e s1 where rf: "registerFailedMfaAttempt env s c' = (e, s1)"
    by (cases "registerFailedMfaAttempt env s c'")
  from completeLoginChallenge_backup_rejected [OF assms, of env now rd]
  obtain e2 s2 where cl: "completeLoginChallenge ext env now s cid' code rd = (Inl e2, s2)"
    by blast
  have su: "\<exists>e s''. completeSetupChallenge ext env now s c' code = (Inl e, s'')"
    using nt rf
    by (auto simp: completeSetupChallenge_def isValidTotpToken_def split: option.splits)
  then obtain e3 s3 where cs: "completeSetupChallenge ext env now s c' code = (Inl e3, s3)"
    by blast
  show ?thesis
    using Some cl cs
    by (auto simp: verifyMfaChallenge_def split: sum.splits)
qed

lemma filter_updateMany:
  "(\<And>r. q (f r) = q r) \<Longrightarrow> filter q (updateMany p f rows) = updateMany p f (filter q rows)"
  by (induction rows) (auto simp: updateMany_def)

lemma verifyMfaChallenge_login:
  assumes "findMfaChallengeById s cid = Some ch" "\<not> ch_expiresAt ch < now"
    "ch_consumedAt ch = None" "ch_type ch = Login"
  shows "verifyMfaChallenge ext env now s cid code rd =
     (case completeLoginChallenge ext env now s cid code rd of
        (Inl e, s1) \<Rightarrow> (Inl e, s1)
      | (Inr (user, tokens, d), s1) \<Rightarrow> (Inr (VerifyMfaLoginResult user tokens d), s1))"
  using assms by (simp add: verifyMfaChallenge_def)

text \<open>
  C7. For a live login challenge of a user with an active configuration: a
  backup-code-shaped input is accepted iff its upper-case form verifies against a
  stored code of the configuration whose \<open>usedAt\<close> is null; on acceptance the matched
  row is marked used, the challenge is consumed, no remembered device is created
  whatever the caller asked, and,
  when no other stored row matches, the same input is rejected from then on against
  every challenge of that user, through \<open>login\<close>'s path and through
  \<open>verifyMfaChallenge\<close>; a TOTP code that verifies, with device memory requested,
  creates a remembered device of the configuration and returns its token.
\<close>

theorem backup_code_single_use_and_device_memory:
  assumes ch: "findMfaChallengeById s cid = Some ch"
    and ty: "ch_type ch = Login"
    and live: "\<not> ch_expiresAt ch < now"
    and uncons: "ch_consumedAt ch = None"
    and setting: "getActiveMfaConfiguration s (ch_userId ch) = Some setting"
    and dec: "decrypt ext (mfa_secretEncrypted setting) (MFA_ENCRYPTION_KEY env) = Some secret"
    and user: "findUserById s (ch_userId ch) = Some user"
    and fresh: "\<not> list_ex (\<lambda>r. rt_id r = randomUUID ext (entropy s + 1)) (refreshTokens s)"
  shows
   "(BACKUP_CODE_PATTERN (toUpperCase code)
      \<and> (\<forall>r \<in> set (listMfaBackupCodes s (mfa_id setting)).
            bc_usedAt r = None \<longrightarrow> argon2_verify ext (bc_codeHash r) (toUpperCase code) \<noteq> None) \<longrightarrow>
       ((\<exists>tokens d s'. verifyMfaChallenge ext env now s cid code rememberDevice
                          = (Inr (VerifyMfaLoginResult user tokens d), s'))
          \<longleftrightarrow> (\<exists>r \<in> set (listMfaBackupCodes s (mfa_id setting)).
                 unused_match ext (toUpperCase code) r))
     \<and> (\<forall>r. find (unused_match ext (toUpperCase code)) (listMfaBackupCodes s (mfa_id setting))
                = Some r \<longrightarrow>
           (\<exists>tokens s'.
              verifyMfaChallenge ext env now s cid code rememberDevice
                = (Inr (VerifyMfaLoginResult user tokens None), s')
            \<and> mfaRememberedDevices s' = mfaRememberedDevices s
            \<and> mfaBackupCodes s' =
                updateMany (\<lambda>c. bc_id c = bc_id r) (\<lambda>c. c\<lparr>bc_usedAt := Some now\<rparr>)
                  (mfaBackupCodes s)
            \<and> findMfaChallengeById s' cid = Some (ch\<lparr>ch_consumedAt := Some now\<rparr>)
            \<and> ((\<forall>r' \<in> set (listMfaBackupCodes s (mfa_id setting)).
                   unused_match ext (toUpperCase code) r' \<longrightarrow> bc_id r' = bc_id r) \<longrightarrow>
                (\<forall>cid' now' rd'.
                   (case findMfaChallengeById s' cid' of
                      None \<Rightarrow> True
                    | Some c' \<Rightarrow> ch_userId c' = ch_userId ch) \<longrightarrow>
                   (\<exists>e s''. completeLoginChallenge ext env now' s' cid' code rd' = (Inl e, s''))
                 \<and> (\<exists>e s''. verifyMfaChallenge ext env now' s' cid' code rd' = (Inl e, s'')))))))
  \<and> (isValidTotpToken ext secret code 6 30 1 now = Inr True
      \<and> \<not> list_ex (\<lambda>d. rd_id d = randomUUID ext (entropy s + 5)) (mfaRememberedDevices s) \<longrightarrow>
       (\<exists>tokens s'.
          verifyMfaChallenge ext env now s cid code True
            = (Inr (VerifyMfaLoginResult user tokens
                      (Some (randomToken ext (entropy s + 3) 32,
                             now + MFA_REMEMBER_DEVICE_DAYS env * 24 * 60 * 60 * 1000))), s')
        \<and> mfaRememberedDevices s' = mfaRememberedDevices s @
              [\<lparr>rd_id = randomUUID ext (entropy s + 5), rd_userMfaId = mfa_id setting,
                rd_tokenHash = argon2_hash ext (entropy s + 4) (randomToken ext (entropy s + 3) 32),
                rd_expiresAt = now + MFA_REMEMBER_DEVICE_DAYS env * 24 * 60 * 60 * 1000,
                rd_lastUsedAt = None\<rparr>]))"
proof (intro conjI impI)
  let ?U = "toUpperCase code"
  let ?L = "listMfaBackupCodes s (mfa_id setting)"
  assume a: "BACKUP_CODE_PATTERN ?U
      \<and> (\<forall>r \<in> set ?L. bc_usedAt r = None \<longrightarrow> argon2_verify ext (bc_codeHash r) ?U \<noteq> None)"
  then have shape: "BACKUP_CODE_PATTERN ?U"
    and total: "\<forall>r \<in> set ?L. bc_usedAt r = None \<longrightarrow> argon2_verify ext (bc_codeHash r) ?U \<noteq> None"
    by auto
  have nt: "\<not> is_totp_shaped code" using shape by (rule backup_shape_not_totp)
  note v = verifyMfaChallenge_login [OF ch live uncons ty]
  have accepted: "\<exists>tokens s'.
              verifyMfaChallenge ext env now s cid code rememberDevice
                = (Inr (VerifyMfaLoginResult user tokens None), s')
            \<and> mfaRememberedDevices s' = mfaRememberedDevices s
            \<and> mfaBackupCodes s' =
                updateMany (\<lambda>c. bc_id c = bc_id r) (\<lambda>c. c\<lparr>bc_usedAt := Some now\<rparr>)
                  (mfaBackupCodes s)
            \<and> mfaSettings s' = mfaSettings s
            \<and> (\<forall>c. findMfaChallengeById s' c
                   = map_option (\<lambda>x. if ch_id x = cid then x\<lparr>ch_consumedAt := Some now\<rparr> else x)
                       (findMfaChallengeById s c))"
    if r: "find (unused_match ext ?U) ?L = Some r" for r
  proof -
    let ?s1 = "s\<lparr>mfaBackupCodes :=
                  updateMany (\<lambda>c. bc_id c = bc_id r) (\<lambda>c. c\<lparr>bc_usedAt := Some now\<rparr>)
                    (mfaBackupCodes s),
               auditEvents := auditEvents s @
                  [\<lparr>ae_action = ''auth.mfa.backup-code.used'', ae_userId = ch_userId ch\<rparr>]\<rparr>"
    have "consumeBackupCode ext now s (mfa_id setting) (ch_userId ch) ?U = (Inr True, ?s1)"
      using r by (simp add: consumeBackupCode_result [OF total])
    then have f: "loginChallengeFactor ext env now s ch setting secret code = (Inr True, ?s1)"
      using nt shape by (simp add: loginChallengeFactor_def)
    from completeLoginChallenge_after_factor [OF ch live setting dec f _ _ _ _ _ user fresh,
        of rememberDevice]
    obtain tokens s' where
      "completeLoginChallenge ext env now s cid code rememberDevice = (Inr (user, tokens, None), s')"
      "mfaRememberedDevices s' = mfaRememberedDevices s"
      "mfaBackupCodes s' = mfaBackupCodes ?s1" "mfaSettings s' = mfaSettings ?s1"
      "\<forall>c. findMfaChallengeById s' c
                   = map_option (\<lambda>x. if ch_id x = cid then x\<lparr>ch_consumedAt := Some now\<rparr> else x)
                       (findMfaChallengeById s c)"
      by auto
    then show ?thesis by (auto simp: v)
  qed
  show "(\<exists>tokens d s'. verifyMfaChallenge ext env now s cid code rememberDevice
                          = (Inr (VerifyMfaLoginResult user tokens d), s'))
          \<longleftrightarrow> (\<exists>r \<in> set ?L. unused_match ext ?U r)"
  proof (cases "find (unused_match ext ?U) ?L")
    case None
    then have nomatch: "\<forall>r \<in> set ?L. \<not> unused_match ext ?U r \<and>
        (bc_usedAt r = None \<longrightarrow> argon2_verify ext (bc_codeHash r) ?U \<noteq> None)"
      using total by (auto simp: find_None_iff)
    have st: "\<forall>c'. findMfaChallengeById s cid = Some c' \<longrightarrow>
                    getActiveMfaConfiguration s (ch_userId c') = Some setting"
      using ch setting by auto
    from verifyMfaChallenge_backup_rejected [OF shape st nomatch, of env now rememberDevice]
    show ?thesis using nomatch by auto
  next
    case (Some r)
    then have "r \<in> set ?L" "unused_match ext ?U r"
      by (auto simp: find_Some_iff in_set_conv_nth)
    with accepted [OF Some] show ?thesis by blast
  qed
  show "\<forall>r. find (unused_match ext ?U) ?L = Some r \<longrightarrow>
           (\<exists>tokens s'.
              verifyMfaChallenge ext env now s cid code rememberDevice
                = (Inr (VerifyMfaLoginResult user tokens None), s')
            \<and> mfaRememberedDevices s' = mfaRememberedDevices s
            \<and> mfaBackupCodes s' =
                updateMany (\<lambda>c. bc_id c = bc_id r) (\<lambda>c. c\<lparr>bc_usedAt := Some now\<rparr>)
                  (mfaBackupCodes s)
            \<and> findMfaChallengeById s' cid = Some (ch\<lparr>ch_consumedAt := Some now\<rparr>)
            \<and> ((\<forall>r' \<in> set ?L. unused_match ext ?U r' \<longrightarrow> bc_id r' = bc_id r) \<longrightarrow>
                (\<forall>cid' now' rd'.
                   (case findMfaChallengeById s' cid' of
                      None \<Rightarrow> True
                    | Some c' \<Rightarrow> ch_userId c' = ch_userId ch) \<longrightarrow>
                   (\<exists>e s''. completeLoginChallenge ext env now' s' cid' code rd' = (Inl e, s''))
                 \<and> (\<exists>e s''. verifyMfaChallenge ext env now' s' cid' code rd' = (Inl e, s'')))))"
  proof (intro allI impI)
    fix r
    assume r: "find (unused_match ext ?U) ?L = Some r"
    from accepted [OF r] obtain tokens s' where s':
      "verifyMfaChallenge ext env now s cid code rememberDevice
                = (Inr (VerifyMfaLoginResult user tokens None), s')"
      "mfaRememberedDevices s' = mfaRememberedDevices s"
      "mfaBackupCodes s' =
                updateMany (\<lambda>c. bc_id c = bc_id r) (\<lambda>c. c\<lparr>bc_usedAt := Some now\<rparr>)
                  (mfaBackupCodes s)"
      "mfaSettings s' = mfaSettings s"
      "\<forall>c. findMfaChallengeById s' c
                   = map_option (\<lambda>x. if ch_id x = cid then x\<lparr>ch_consumedAt := Some now\<rparr> else x)
                       (findMfaChallengeById s c)"
      by blast
    have cons: "findMfaChallengeById s' cid = Some (ch\<lparr>ch_consumedAt := Some now\<rparr>)"
      using s'(5) ch findUnique_Some_holds [OF ch [unfolded findMfaChallengeById_def]] by simp
    have later: "(\<exists>e s''. completeLoginChallenge ext env now' s' cid' code rd' = (Inl e, s''))
                 \<and> (\<exists>e s''. verifyMfaChallenge ext env now' s' cid' code rd' = (Inl e, s''))"
      if uniq: "\<forall>r' \<in> set ?L. unused_match ext ?U r' \<longrightarrow> bc_id r' = bc_id r"
        and own: "case findMfaChallengeById s' cid' of
                      None \<Rightarrow> True
                    | Some c' \<Rightarrow> ch_userId c' = ch_userId ch"
      for cid' now' rd'
    proof -
      have st: "\<forall>c'. findMfaChallengeById s' cid' = Some c' \<longrightarrow>
                    getActiveMfaConfiguration s' (ch_userId c') = Some setting"
        using own setting
        by (auto simp: getActiveMfaConfiguration_def getMfaConfiguration_def s'(4))
      have L': "listMfaBackupCodes s' (mfa_id setting) =
                  updateMany (\<lambda>c. bc_id c = bc_id r) (\<lambda>c. c\<lparr>bc_usedAt := Some now\<rparr>) ?L"
        by (simp add: listMfaBackupCodes_def s'(3) filter_updateMany)
      have nomatch: "\<forall>x \<in> set (listMfaBackupCodes s' (mfa_id setting)).
                    \<not> unused_match ext ?U x
                  \<and> (bc_usedAt x = None \<longrightarrow> argon2_verify ext (bc_codeHash x) ?U \<noteq> None)"
        using uniq total by (auto simp: L' set_updateMany unused_match_def)
      show ?thesis
        using completeLoginChallenge_backup_rejected [OF shape st nomatch, of env now' rd']
          verifyMfaChallenge_backup_rejected [OF shape st nomatch, of env now' rd']
        by blast
    qed
    show "\<exists>tokens s'.
              verifyMfaChallenge ext env now s cid code rememberDevice
                = (Inr (VerifyMfaLoginResult user tokens None), s')
            \<and> mfaRememberedDevices s' = mfaRememberedDevices s
            \<and> mfaBackupCodes s' =
                updateMany (\<lambda>c. bc_id c = bc_id r) (\<lambda>c. c\<lparr>bc_usedAt := Some now\<rparr>)
                  (mfaBackupCodes s)
            \<and> findMfaChallengeById s' cid = Some (ch\<lparr>ch_consumedAt := Some now\<rparr>)
            \<and> ((\<forall>r' \<in> set ?L. unused_match ext ?U r' \<longrightarrow> bc_id r' = bc_id r) \<longrightarrow>
                (\<forall>cid' now' rd'.
                   (case findMfaChallengeById s' cid' of
                      None \<Rightarrow> True
                    | Some c' \<Rightarrow> ch_userId c' = ch_userId ch) \<longrightarrow>
                   (\<exists>e s''. completeLoginChallenge ext env now' s' cid' code rd' = (Inl e, s''))
                 \<and> (\<exists>e s''. verifyMfaChallenge ext env now' s' cid' code rd' = (Inl e, s''))))"
      using s'(1-4) cons later by blast
  qed
next
  assume t: "isValidTotpToken ext secret code 6 30 1 now = Inr True
      \<and> \<not> list_ex (\<lambda>d. rd_id d = randomUUID ext (entropy s + 5)) (mfaRememberedDevices s)"
  then have shaped: "is_totp_shaped code" by (auto intro: is_totp_shaped_if_valid)
  have f: "loginChallengeFactor ext env now s ch setting secret code = (Inr False, s)"
    using t shaped by (simp add: loginChallengeFactor_def)
  from completeLoginChallenge_after_factor [OF ch live setting dec f _ _ _ _ _ user fresh,
      of True] t
  show "\<exists>tokens s'.
          verifyMfaChallenge ext env now s cid code True
            = (Inr (VerifyMfaLoginResult user tokens
                      (Some (randomToken ext (entropy s + 3) 32,
                             now + MFA_REMEMBER_DEVICE_DAYS env * 24 * 60 * 60 * 1000))), s')
        \<and> mfaRememberedDevices s' = mfaRememberedDevices s @
              [\<lparr>rd_id = randomUUID ext (entropy s + 5), rd_userMfaId = mfa_id setting,
                rd_tokenHash = argon2_hash ext (entropy s + 4) (randomToken ext (entropy s + 3) 32),
                rd_expiresAt = now + MFA_REMEMBER_DEVICE_DAYS env * 24 * 60 * 60 * 1000,
                rd_lastUsedAt = None\<rparr>]"
    by (auto simp: verifyMfaChallenge_login [OF ch live uncons ty])
qed

theorem backup_code_single_use_and_device_memory_witness:
  "(\<exists>tokens s'.
      verifyMfaChallenge ext0 env0 now0 store0 ''c2'' ''abcd-2345'' True
        = (Inr (VerifyMfaLoginResult alice tokens None), s')
    \<and> mfaRememberedDevices s' = mfaRememberedDevices store0
    \<and> (\<exists>e s''. completeLoginChallenge ext0 env0 (now0 + 1) s' ''c2'' ''abcd-2345'' False = (Inl e, s''))
    \<and> (\<exists>e s''. verifyMfaChallenge ext0 env0 (now0 + 1) s' ''c2'' ''abcd-2345'' False = (Inl e, s'')))
 \<and> \<not> (\<exists>tokens d s'.
        verifyMfaChallenge ext0 env0 now0 store0 ''c2'' ''wxyz-6777'' True
          = (Inr (VerifyMfaLoginResult alice tokens d), s'))
 \<and> (\<exists>tokens s'.
      verifyMfaChallenge ext0 env0 now0 store0 ''c2'' ''406378'' True
        = (Inr (VerifyMfaLoginResult alice tokens
                  (Some (randomToken ext0 3 32, now0 + 2592000000))), s')
    \<and> length (mfaRememberedDevices s') = length (mfaRememberedDevices store0) + 1)"
proof -
  let ?ch = "challenge_row ''c2'' ''u1'' (Some ''m1'') Login None None"
  let ?b2 = "\<lparr>bc_id = ''b2'', bc_userMfaId = ''m1'', bc_codeHash = ''$argon2id$ABCD-2345'',
              bc_usedAt = None\<rparr>"
  have ty: "ch_type ?ch = Login" and live: "\<not> ch_expiresAt ?ch < now0"
    and uncons: "ch_consumedAt ?ch = None"
    by (simp_all add: challenge_row_def)
  have setting: "getActiveMfaConfiguration store0 (ch_userId ?ch) = Some alice_mfa"
    and user: "findUserById store0 (ch_userId ?ch) = Some alice"
    by (simp_all add: challenge_row_def store0_mfa)
  have dec: "decrypt ext0 (mfa_secretEncrypted alice_mfa) (MFA_ENCRYPTION_KEY env0)
               = Some ''JBSWY3DPEHPK3PXP''"
    by (simp add: alice_mfa_def ext0_def)
  note T = backup_code_single_use_and_device_memory
             [OF store0_mfa(2) ty live uncons setting dec user store0_fresh]
  have L: "listMfaBackupCodes store0 (mfa_id alice_mfa) =
      [\<lparr>bc_id = ''b1'', bc_userMfaId = ''m1'', bc_codeHash = ''$argon2id$WXYZ-6777'',
        bc_usedAt = Some (now0 - 50000)\<rparr>, ?b2]"
    by (simp add: listMfaBackupCodes_def store0_def alice_mfa_def)
  have shapes: "BACKUP_CODE_PATTERN ''ABCD-2345''" "BACKUP_CODE_PATTERN ''WXYZ-6777''"
    by (auto simp: BACKUP_CODE_PATTERN_def is_upper_alnum_def is_digit_def char_between_def)
  have h1: "BACKUP_CODE_PATTERN (toUpperCase ''abcd-2345'')
      \<and> (\<forall>r \<in> set (listMfaBackupCodes store0 (mfa_id alice_mfa)).
            bc_usedAt r = None \<longrightarrow>
            argon2_verify ext0 (bc_codeHash r) (toUpperCase ''abcd-2345'') \<noteq> None)"
    by (auto simp: toUpperCase_fixture shapes L ext0_def)
  have f1: "find (unused_match ext0 (toUpperCase ''abcd-2345''))
              (listMfaBackupCodes store0 (mfa_id alice_mfa)) = Some ?b2"
    by (simp add: toUpperCase_fixture L unused_match_def ext0_def)
  have u1: "\<forall>r' \<in> set (listMfaBackupCodes store0 (mfa_id alice_mfa)).
              unused_match ext0 (toUpperCase ''abcd-2345'') r' \<longrightarrow> bc_id r' = bc_id ?b2"
    by (simp add: toUpperCase_fixture L unused_match_def)
  from T [of "''abcd-2345''" True, THEN conjunct1, rule_format, OF h1, THEN conjunct2,
      rule_format, OF f1]
  obtain tokens s' where a:
    "verifyMfaChallenge ext0 env0 now0 store0 ''c2'' ''abcd-2345'' True
        = (Inr (VerifyMfaLoginResult alice tokens None), s')"
    "mfaRememberedDevices s' = mfaRememberedDevices store0"
    "findMfaChallengeById s' ''c2'' = Some (?ch\<lparr>ch_consumedAt := Some now0\<rparr>)"
    "(\<forall>r' \<in> set (listMfaBackupCodes store0 (mfa_id alice_mfa)).
         unused_match ext0 (toUpperCase ''abcd-2345'') r' \<longrightarrow> bc_id r' = bc_id ?b2) \<longrightarrow>
     (\<forall>cid' now' rd'.
         (case findMfaChallengeById s' cid' of
            None \<Rightarrow> True
          | Some c' \<Rightarrow> ch_userId c' = ch_userId ?ch) \<longrightarrow>
         (\<exists>e s''. completeLoginChallenge ext0 env0 now' s' cid' ''abcd-2345'' rd' = (Inl e, s''))
       \<and> (\<exists>e s''. verifyMfaChallenge ext0 env0 now' s' cid' ''abcd-2345'' rd' = (Inl e, s'')))"
    by blast
  from a(4) [rule_format, OF u1 [rule_format], of "''c2''" "now0 + 1" False] a(3)
  have again:
    "(\<exists>e s''. completeLoginChallenge ext0 env0 (now0 + 1) s' ''c2'' ''abcd-2345'' False = (Inl e, s''))
   \<and> (\<exists>e s''. verifyMfaChallenge ext0 env0 (now0 + 1) s' ''c2'' ''abcd-2345'' False = (Inl e, s''))"
    by simp
  have part1: "\<exists>tokens s'.
      verifyMfaChallenge ext0 env0 now0 store0 ''c2'' ''abcd-2345'' True
        = (Inr (VerifyMfaLoginResult alice tokens None), s')
    \<and> mfaRememberedDevices s' = mfaRememberedDevices store0
    \<and> (\<exists>e s''. completeLoginChallenge ext0 env0 (now0 + 1) s' ''c2'' ''abcd-2345'' False = (Inl e, s''))
    \<and> (\<exists>e s''. verifyMfaChallenge ext0 env0 (now0 + 1) s' ''c2'' ''abcd-2345'' False = (Inl e, s''))"
    using a(1,2) again by blast
  have h2: "BACKUP_CODE_PATTERN (toUpperCase ''wxyz-6777'')
      \<and> (\<forall>r \<in> set (listMfaBackupCodes store0 (mfa_id alice_mfa)).
            bc_usedAt r = None \<longrightarrow>
            argon2_verify ext0 (bc_codeHash r) (toUpperCase ''wxyz-6777'') \<noteq> None)"
    by (auto simp: toUpperCase_fixture shapes L ext0_def)
  have part2: "\<not> (\<exists>tokens d s'.
        verifyMfaChallenge ext0 env0 now0 store0 ''c2'' ''wxyz-6777'' True
          = (Inr (VerifyMfaLoginResult alice tokens d), s'))"
    unfolding T [of "''wxyz-6777''" True, THEN conjunct1, rule_format, OF h2, THEN conjunct1]
    by (simp add: toUpperCase_fixture L unused_match_def ext0_def)
  have h3: "isValidTotpToken ext0 ''JBSWY3DPEHPK3PXP'' ''406378'' 6 30 1 now0 = Inr True
      \<and> \<not> list_ex (\<lambda>d. rd_id d = randomUUID ext0 (entropy store0 + 5)) (mfaRememberedDevices store0)"
    by (simp add: isValidTotpToken_fixture) (simp add: store0_def ext0_def)
  have part3: "\<exists>tokens s'.
      verifyMfaChallenge ext0 env0 now0 store0 ''c2'' ''406378'' True
        = (Inr (VerifyMfaLoginResult alice tokens
                  (Some (randomToken ext0 3 32, now0 + 2592000000))), s')
    \<and> length (mfaRememberedDevices s') = length (mfaRememberedDevices store0) + 1"
    using T [of "''406378''" True, THEN conjunct2, rule_format, OF h3]
    by (auto simp: store0_def env0_def)
  from part1 part2 part3 show ?thesis by blast
qed

section \<open>Setup challenges and fresh backup codes\<close>

lemma base32_index_char:
  "is_upper_alnum (BASE32_ALPHABET ! unat ((w :: 32 word) AND 31))
   \<and> \<not> char_between CHR ''a'' CHR ''z'' (BASE32_ALPHABET ! unat (w AND 31))"
proof -
  have "unat (w AND 31) \<le> unat (31 :: 32 word)"
    by (rule word_and_le1 [THEN word_le_nat_alt [THEN iffD1]])
  then have "unat (w AND 31) < 32" by simp
  then have "unat (w AND 31) \<in> set [0..<32]" by simp
  moreover have "\<forall>i \<in> set [0..<32]. is_upper_alnum (BASE32_ALPHABET ! i)
        \<and> \<not> char_between CHR ''a'' CHR ''z'' (BASE32_ALPHABET ! i)"
    by (simp add: upt_rec BASE32_ALPHABET_def is_upper_alnum_def is_digit_def char_between_def)
  ultimately show ?thesis by blast
qed

lemma base32Encode_five:
  "length bs = 5 \<Longrightarrow>
   \<exists>c0 c1 c2 c3 c4 c5 c6 c7 :: 32 word.
     base32Encode bs = map (\<lambda>w. BASE32_ALPHABET ! unat (w AND 31)) [c0, c1, c2, c3, c4, c5, c6, c7]"
proof -
  assume "length bs = 5"
  then obtain b0 b1 b2 b3 b4 where bs: "bs = [b0, b1, b2, b3, b4]"
    by (auto simp: length_Suc_conv eval_nat_numeral)
  show ?thesis
    unfolding bs base32Encode_def
    by (simp add: base32_emit.simps) blast
qed

lemma upper_char_base32 [simp]:
  "upper_char (BASE32_ALPHABET ! unat ((w :: 32 word) AND 31)) = BASE32_ALPHABET ! unat (w AND 31)"
  using base32_index_char [of w] by (simp add: upper_char_def)

lemma upper_char_dash [simp]: "upper_char CHR ''-'' = CHR ''-''"
  by (simp add: upper_char_def char_between_def)

lemma backup_code_format:
  assumes "length bs = 5"
  shows "BACKUP_CODE_PATTERN
           (toUpperCase (take 4 (take 8 (base32Encode bs)) @ ''-''
                         @ take 4 (drop 4 (take 8 (base32Encode bs)))))"
proof -
  from base32Encode_five [OF assms] obtain c0 c1 c2 c3 c4 c5 c6 c7 :: "32 word" where
    e: "base32Encode bs
          = map (\<lambda>w. BASE32_ALPHABET ! unat (w AND 31)) [c0, c1, c2, c3, c4, c5, c6, c7]"
    by blast
  show ?thesis
    unfolding e using base32_index_char
    by (simp add: BACKUP_CODE_PATTERN_def toUpperCase_def)
qed

lemma generateBackupCodes_format:
  assumes "\<forall>n. length (randomBytes ext n 5) = 5"
  shows "length (generateBackupCodes ext n k) = k
       \<and> (\<forall>c \<in> set (map toUpperCase (generateBackupCodes ext n k)). BACKUP_CODE_PATTERN c)"
proof (induction k arbitrary: n)
  case 0
  show ?case by simp
next
  case (Suc k)
  have one: "BACKUP_CODE_PATTERN
           (toUpperCase (take 4 (take 8 (base32Encode (randomBytes ext n 5))) @ ''-''
                         @ take 4 (drop 4 (take 8 (base32Encode (randomBytes ext n 5))))))"
    using assms by (intro backup_code_format) simp
  have step: "generateBackupCodes ext n (Suc k) =
      (take 4 (take 8 (base32Encode (randomBytes ext n 5))) @ ''-''
         @ take 4 (drop 4 (take 8 (base32Encode (randomBytes ext n 5)))))
      # generateBackupCodes ext (Suc n) k"
    by (simp only: generateBackupCodes.simps Let_def)
  show ?case
    unfolding step using one Suc.IH [of "Suc n"] by simp
qed

lemma hashBackupCodes_ids:
  "map fst (hashBackupCodes ext k cs) = map (\<lambda>i. randomUUID ext (k + 2 * i)) [0..<length cs]"
proof (induction cs arbitrary: k)
  case Nil
  show ?case by simp
next
  case (Cons c cs)
  have "map (\<lambda>i. randomUUID ext (k + 2 * i)) [0..<length (c # cs)]
      = randomUUID ext k # map (\<lambda>i. randomUUID ext (k + 2 + 2 * i)) [0..<length cs]"
    by (simp add: upt_conv_Cons map_Suc_upt [symmetric] del: upt_Suc)
  then show ?case using Cons.IH [of "k + 2"] by simp
qed

lemma hashBackupCodes_hashes:
  "list_all2 (\<lambda>p c. \<exists>salt. snd p = argon2_hash ext salt c) (hashBackupCodes ext k cs) cs"
  by (induction cs arbitrary: k) auto

lemma distinct_map_subset:
  assumes "distinct (map f xs)" "set ys \<subseteq> set xs" "distinct ys"
  shows "distinct (map f ys)"
proof -
  have "inj_on f (set xs)" using assms(1) by (simp add: distinct_map)
  then have "inj_on f (set ys)" using assms(2) by (rule inj_on_subset)
  with assms(3) show ?thesis by (simp add: distinct_map)
qed

lemma upsertMfaSetting_activates:
  assumes "getMfaConfiguration s uid = None \<longrightarrow>
             \<not> list_ex (\<lambda>x. mfa_id x = randomUUID ext (entropy s)) (mfaSettings s)"
  shows "\<exists>m s1. upsertMfaSetting ext s uid se dn (Some now) = (Inr m, s1)
     \<and> getMfaConfiguration s1 uid = Some m
     \<and> mfa_activatedAt m = Some now \<and> mfa_secretEncrypted m = se
     \<and> (entropy s1 = entropy s \<or> entropy s1 = entropy s + 1)
     \<and> mfaBackupCodes s1 = mfaBackupCodes s \<and> mfaChallenges s1 = mfaChallenges s
     \<and> auditEvents s1 = auditEvents s"
proof (cases "getMfaConfiguration s uid")
  case None
  then show ?thesis
    using assms
    by (simp add: upsertMfaSetting_def getMfaConfiguration_def Let_def create_row_def
        findUnique_append)
next
  case (Some m0)
  then show ?thesis
    using findUnique_Some_holds [OF Some [unfolded getMfaConfiguration_def]]
    by (simp add: upsertMfaSetting_def getMfaConfiguration_def findUnique_updateMany)
qed

lemma replaceMfaBackupCodes_result:
  assumes "codes \<noteq> []" "distinct (map fst codes)"
    "\<forall>c \<in> set (mfaBackupCodes s). bc_id c \<notin> set (map fst codes)"
  shows "\<exists>s'. replaceMfaBackupCodes s mid codes = Inr s'
     \<and> listMfaBackupCodes s' mid =
          map (\<lambda>code. \<lparr>bc_id = fst code, bc_userMfaId = mid, bc_codeHash = snd code,
                        bc_usedAt = None\<rparr>) codes
     \<and> (\<forall>mid'. mid' \<noteq> mid \<longrightarrow> listMfaBackupCodes s' mid' = listMfaBackupCodes s mid')
     \<and> mfaChallenges s' = mfaChallenges s \<and> mfaSettings s' = mfaSettings s
     \<and> auditEvents s' = auditEvents s"
proof -
  have noclash: "\<not> list_ex (\<lambda>c. bc_id c \<in> set (map fst codes))
                     (deleteMany (\<lambda>c. bc_userMfaId c = mid) (mfaBackupCodes s))"
    using assms(3) by (auto simp: list_ex_iff deleteMany_def)
  have f1: "filter (\<lambda>c. bc_userMfaId c = mid)
              (deleteMany (\<lambda>c. bc_userMfaId c = mid) (mfaBackupCodes s)) = []"
    by (simp add: deleteMany_def filter_empty_conv)
  have f2: "filter (\<lambda>c. bc_userMfaId c = mid')
              (deleteMany (\<lambda>c. bc_userMfaId c = mid) (mfaBackupCodes s))
            = filter (\<lambda>c. bc_userMfaId c = mid') (mfaBackupCodes s)" if "mid' \<noteq> mid" for mid'
    using that by (auto simp: deleteMany_def intro: filter_cong)
  show ?thesis
    using assms(1,2) noclash
    by (simp add: replaceMfaBackupCodes_def Let_def listMfaBackupCodes_def f1 f2 o_def
        filter_map comp_def)
qed

lemma digits_of_two [simp]:
  "10 \<le> n \<Longrightarrow> n < 100 \<Longrightarrow> digits_of n = [''0123456789'' ! (n div 10), ''0123456789'' ! (n mod 10)]"
  by (subst digits_of.simps) simp

lemma unat_and_31: "unat ((w :: 32 word) AND 31) = unat w mod 32"
proof -
  have "(31 :: 32 word) = mask 5" by (simp add: mask_eq_exp_minus_1)
  then have "unat (w AND 31) = unat (take_bit 5 w)" by (simp only: take_bit_eq_mask)
  also have "\<dots> = take_bit 5 (unat w)" by (simp only: unsigned_take_bit_eq)
  also have "\<dots> = unat w mod 32" by (simp add: take_bit_eq_mod)
  finally show ?thesis .
qed

lemma unat_drop_bit_32: "unat (drop_bit k (w :: 32 word)) = unat w div 2 ^ k"
  by (subst unat_drop_bit_eq) (rule drop_bit_eq_div)

lemma unat_ucast_byte: "unat (ucast (b :: 8 word) :: 32 word) = unat b"
proof -
  have "unat b < 2 ^ 8" using unsigned_less [of b] by simp
  then have "unat b < 2 ^ 32" by simp
  then have "take_bit 32 (unat b) = unat b" by (rule take_bit_nat_eq_self)
  then show ?thesis by (simp add: unsigned_ucast_eq)
qed

lemma unat_shift_or:
  "unat (push_bit 8 (v :: 32 word) OR ucast (b :: 8 word)) = (unat v * 256 + unat b) mod 2 ^ 32"
proof -
  have "push_bit 8 v + ucast b = push_bit 8 v OR (ucast b :: 32 word)"
    by (rule disjunctive_add) (auto simp: bit_simps dest: bit_imp_le_length)
  then have "unat (push_bit 8 v OR (ucast b :: 32 word)) = unat (push_bit 8 v + (ucast b :: 32 word))"
    by simp
  also have "\<dots> = (unat (push_bit 8 v) + unat (ucast b :: 32 word)) mod 2 ^ 32"
    by (simp add: unat_word_ariths)
  also have "unat (push_bit 8 v) = take_bit 32 (push_bit 8 (unat v))"
    by (simp add: unsigned_push_bit_eq)
  also have "\<dots> = (unat v * 256) mod 2 ^ 32"
    by (simp add: take_bit_eq_mod push_bit_eq_mult)
  finally show ?thesis by (simp add: mod_simps unat_ucast_byte)
qed

lemma div_shift:
  fixes v r :: nat
  assumes "r < 2 ^ m"
  shows "(v * 2 ^ m + r) div (2 ^ m * 2 ^ k) mod 32 = v div 2 ^ k mod 32"
proof -
  have "(v * 2 ^ m + r) div 2 ^ m = v" using assms by simp
  then show ?thesis by (simp add: div_mult2_eq)
qed

lemma wrap_index:
  fixes a :: nat
  shows "a mod 2 ^ 32 div 2 ^ 5 mod 32 = a div 2 ^ 5 mod 32" "a mod 2 ^ 32 div 2 ^ 0 mod 32 = a mod 32"
proof -
  have "take_bit 5 (drop_bit 5 (take_bit 32 a)) = take_bit 5 (drop_bit 5 a)"
    by (rule bit_eqI) (auto simp: bit_simps)
  then show "a mod 2 ^ 32 div 2 ^ 5 mod 32 = a div 2 ^ 5 mod 32"
    by (simp add: take_bit_eq_mod drop_bit_eq_div)
  have "take_bit 5 (take_bit 32 a) = take_bit 5 a" by simp
  then show "a mod 2 ^ 32 div 2 ^ 0 mod 32 = a mod 32"
    by (simp add: take_bit_eq_mod)
qed

text \<open>\<open>base32Encode\<close> of five bytes spells their forty bits in eight digits.\<close>

lemma base32Encode_five_value:
  "base32Encode [b0, b1, b2, b3, b4]
   = map (\<lambda>j. BASE32_ALPHABET ! (be_value [b0, b1, b2, b3, b4] div 32 ^ (7 - j) mod 32))
       [0, 1, 2, 3, 4, 5, 6, 7]"
proof -
  define v1 :: "32 word" where "v1 = ucast b0"
  define v2 :: "32 word" where "v2 = push_bit 8 v1 OR ucast b1"
  define v3 :: "32 word" where "v3 = push_bit 8 v2 OR ucast b2"
  define v4 :: "32 word" where "v4 = push_bit 8 v3 OR ucast b3"
  define v5 :: "32 word" where "v5 = push_bit 8 v4 OR ucast b4"
  note folds = v1_def [symmetric] v2_def [symmetric] v3_def [symmetric] v4_def [symmetric]
    v5_def [symmetric]
  have enc: "base32Encode [b0, b1, b2, b3, b4]
      = [BASE32_ALPHABET ! unat (drop_bit 3 v1 AND 31),
         BASE32_ALPHABET ! unat (drop_bit 6 v2 AND 31),
         BASE32_ALPHABET ! unat (drop_bit 1 v2 AND 31),
         BASE32_ALPHABET ! unat (drop_bit 4 v3 AND 31),
         BASE32_ALPHABET ! unat (drop_bit 7 v4 AND 31),
         BASE32_ALPHABET ! unat (drop_bit 2 v4 AND 31),
         BASE32_ALPHABET ! unat (drop_bit 5 v5 AND 31),
         BASE32_ALPHABET ! unat (drop_bit 0 v5 AND 31)]"
    unfolding base32Encode_def
    by (simp add: base32_emit.simps folds)
  define B0 B1 B2 B3 B4 where "B0 = unat b0" and "B1 = unat b1" and "B2 = unat b2"
    and "B3 = unat b3" and "B4 = unat b4"
  have lt: "B0 < 256" "B1 < 256" "B2 < 256" "B3 < 256" "B4 < 256"
    using unsigned_less [of b0] unsigned_less [of b1] unsigned_less [of b2]
      unsigned_less [of b3] unsigned_less [of b4]
    by (simp_all add: B0_def B1_def B2_def B3_def B4_def)
  define V2 V3 V4 N where "V2 = B0 * 256 + B1" and "V3 = V2 * 256 + B2"
    and "V4 = V3 * 256 + B3" and "N = V4 * 256 + B4"
  have u1: "unat v1 = B0" by (simp add: v1_def unat_ucast_byte B0_def)
  have u2: "unat v2 = V2"
    unfolding v2_def unat_shift_or u1 B1_def [symmetric] V2_def using lt by simp
  have u3: "unat v3 = V3"
    unfolding v3_def unat_shift_or u2 B2_def [symmetric] V3_def V2_def using lt by simp
  have u4: "unat v4 = V4"
    unfolding v4_def unat_shift_or u3 B3_def [symmetric] V4_def V3_def V2_def using lt by simp
  have u5: "unat v5 = N mod 2 ^ 32"
    unfolding v5_def unat_shift_or u4 B4_def [symmetric] N_def by simp
  have bv: "be_value [b0, b1, b2, b3, b4] = N"
    by (simp add: be_value_def B0_def B1_def B2_def B3_def B4_def N_def V4_def V3_def V2_def)
  have n32: "N = B0 * 2 ^ 32 + (B1 * 2 ^ 24 + B2 * 2 ^ 16 + B3 * 2 ^ 8 + B4)"
    and n24: "N = V2 * 2 ^ 24 + (B2 * 2 ^ 16 + B3 * 2 ^ 8 + B4)"
    and n16: "N = V3 * 2 ^ 16 + (B3 * 2 ^ 8 + B4)"
    and n8: "N = V4 * 2 ^ 8 + B4"
    by (simp_all add: N_def V4_def V3_def V2_def algebra_simps)
  have r32: "B1 * 2 ^ 24 + B2 * 2 ^ 16 + B3 * 2 ^ 8 + B4 < 2 ^ 32"
    and r24: "B2 * 2 ^ 16 + B3 * 2 ^ 8 + B4 < 2 ^ 24"
    and r16: "B3 * 2 ^ 8 + B4 < 2 ^ 16"
    and r8: "B4 < 2 ^ 8"
    using lt by simp_all
  have p: "(32::nat) ^ 7 = 2 ^ 32 * 2 ^ 3" "(32::nat) ^ 6 = 2 ^ 24 * 2 ^ 6"
    "(32::nat) ^ 5 = 2 ^ 24 * 2 ^ 1" "(32::nat) ^ 4 = 2 ^ 16 * 2 ^ 4"
    "(32::nat) ^ 3 = 2 ^ 8 * 2 ^ 7" "(32::nat) ^ 2 = 2 ^ 8 * 2 ^ 2"
    "(32::nat) ^ 1 = 2 ^ 5" "(32::nat) ^ 0 = 2 ^ 0"
    by simp_all
  have j0: "unat (drop_bit 3 v1 AND 31) = N div 32 ^ 7 mod 32"
    unfolding unat_and_31 unat_drop_bit_32 u1 p
    by (subst n32) (rule div_shift [OF r32, symmetric])
  have j1: "unat (drop_bit 6 v2 AND 31) = N div 32 ^ 6 mod 32"
    unfolding unat_and_31 unat_drop_bit_32 u2 p
    by (subst n24) (rule div_shift [OF r24, symmetric])
  have j2: "unat (drop_bit 1 v2 AND 31) = N div 32 ^ 5 mod 32"
    unfolding unat_and_31 unat_drop_bit_32 u2 p
    by (subst n24) (rule div_shift [OF r24, symmetric])
  have j3: "unat (drop_bit 4 v3 AND 31) = N div 32 ^ 4 mod 32"
    unfolding unat_and_31 unat_drop_bit_32 u3 p
    by (subst n16) (rule div_shift [OF r16, symmetric])
  have j4: "unat (drop_bit 7 v4 AND 31) = N div 32 ^ 3 mod 32"
    unfolding unat_and_31 unat_drop_bit_32 u4 p
    by (subst n8) (rule div_shift [OF r8, symmetric])
  have j5: "unat (drop_bit 2 v4 AND 31) = N div 32 ^ 2 mod 32"
    unfolding unat_and_31 unat_drop_bit_32 u4 p
    by (subst n8) (rule div_shift [OF r8, symmetric])
  have j6: "unat (drop_bit 5 v5 AND 31) = N div 32 ^ 1 mod 32"
    unfolding unat_and_31 unat_drop_bit_32 u5 p by (rule wrap_index)
  have j7: "unat (drop_bit 0 v5 AND 31) = N div 32 ^ 0 mod 32"
    unfolding unat_and_31 unat_drop_bit_32 u5 p using wrap_index(2) [of N] by simp
  show ?thesis
    unfolding enc bv j0 j1 j2 j3 j4 j5 j6 j7 by simp
qed

lemma upper_char_alphabet: "i < 32 \<Longrightarrow> upper_char (BASE32_ALPHABET ! i) = BASE32_ALPHABET ! i"
proof -
  assume "i < 32"
  then have "i \<in> set [0..<32]" by simp
  moreover have "\<forall>i \<in> set [0..<32]. upper_char (BASE32_ALPHABET ! i) = BASE32_ALPHABET ! i"
    by (simp add: upt_rec BASE32_ALPHABET_def upper_char_def char_between_def)
  ultimately show ?thesis by blast
qed

lemma backup_code_value:
  assumes "length bs = 5"
  shows "toUpperCase (take 4 (take 8 (base32Encode bs)) @ ''-''
                      @ take 4 (drop 4 (take 8 (base32Encode bs))))
         = code_of_value (be_value bs)"
proof -
  from assms obtain b0 b1 b2 b3 b4 where bs: "bs = [b0, b1, b2, b3, b4]"
    by (auto simp: length_Suc_conv eval_nat_numeral)
  show ?thesis
    unfolding bs base32Encode_five_value
    by (simp add: toUpperCase_def code_of_value_def upper_char_alphabet)
qed

lemma generateBackupCodes_nth:
  assumes "\<forall>n. length (randomBytes ext n 5) = 5"
  shows "i < k \<Longrightarrow> map toUpperCase (generateBackupCodes ext n k) ! i
                    = code_of_value (be_value (randomBytes ext (n + i) 5))"
proof (induction k arbitrary: n i)
  case 0
  then show ?case by simp
next
  case (Suc k)
  have step: "generateBackupCodes ext n (Suc k) =
      (take 4 (take 8 (base32Encode (randomBytes ext n 5))) @ ''-''
         @ take 4 (drop 4 (take 8 (base32Encode (randomBytes ext n 5)))))
      # generateBackupCodes ext (Suc n) k"
    by (simp only: generateBackupCodes.simps Let_def)
  show ?case
  proof (cases i)
    case 0
    have "length (randomBytes ext n 5) = 5" using assms by simp
    from backup_code_value [OF this] show ?thesis
      unfolding step 0 by simp
  next
    case (Suc j)
    with Suc.prems have "j < k" by simp
    from Suc.IH [OF this, of "Suc n"] show ?thesis
      unfolding step Suc by simp
  qed
qed

lemma hashBackupCodes_length: "length (hashBackupCodes ext k cs) = length cs"
  by (induction cs arbitrary: k) auto

lemma hashBackupCodes_nth:
  "i < length cs \<Longrightarrow>
   hashBackupCodes ext k cs ! i = (randomUUID ext (k + 2 * i), argon2_hash ext (k + 2 * i + 1) (cs ! i))"
proof (induction cs arbitrary: k i)
  case Nil
  then show ?case by simp
next
  case (Cons c cs)
  show ?case
  proof (cases i)
    case 0
    then show ?thesis by simp
  next
    case (Suc j)
    with Cons.prems have "j < length cs" by simp
    from Cons.IH [OF this, of "k + 2"] show ?thesis
      unfolding Suc by simp
  qed
qed

text \<open>The random bytes are drawn for the backup codes only.\<close>

lemma generateOtp_hmac_cong:
  assumes "hmac_sha1 ext' = hmac_sha1 ext"
  shows "generateOtp ext' buf c d = generateOtp ext buf c d"
  unfolding generateOtp_def assms ..

lemma totp_window_hmac_cong:
  assumes "hmac_sha1 ext' = hmac_sha1 ext"
  shows "totp_window ext' buf c d token offsets = totp_window ext buf c d token offsets"
  by (induction offsets) (simp_all add: generateOtp_hmac_cong [OF assms] split: sum.splits)

lemma isValidTotpToken_hmac_cong:
  assumes "hmac_sha1 ext' = hmac_sha1 ext"
  shows "isValidTotpToken ext' secret token d st w t = isValidTotpToken ext secret token d st w t"
  unfolding isValidTotpToken_def totp_window_hmac_cong [OF assms] ..

lemma isValidTotpToken_randomBytes:
  "isValidTotpToken (ext\<lparr>randomBytes := rb\<rparr>) secret token d st w t
   = isValidTotpToken ext secret token d st w t"
  by (rule isValidTotpToken_hmac_cong) simp

lemma upsertMfaSetting_randomBytes:
  "upsertMfaSetting (ext\<lparr>randomBytes := rb\<rparr>) s uid se dn a = upsertMfaSetting ext s uid se dn a"
  by (simp add: upsertMfaSetting_def Let_def split: option.splits)

lemma hashBackupCodes_randomBytes:
  "hashBackupCodes (ext\<lparr>randomBytes := rb\<rparr>) k cs = hashBackupCodes ext k cs"
  by (induction cs arbitrary: k) auto

lemma setup_challenge_run:
  assumes ch: "findMfaChallengeById s cid = Some ch"
    and ty: "ch_type ch = Setup"
    and live: "\<not> ch_expiresAt ch < now"
    and uncons: "ch_consumedAt ch = None"
    and se: "ch_secretEncrypted ch = Some se" "se \<noteq> []"
    and dec: "decrypt ext se (MFA_ENCRYPTION_KEY env) = Some secret"
    and valid: "isValidTotpToken ext secret code 6 30 1 now = Inr True"
    and rnd: "\<forall>n. length (randomBytes ext n 5) = 5"
    and ids: "distinct (map (randomUUID ext) [entropy s ..< entropy s + 24])"
    and idfresh: "\<forall>i \<in> set [entropy s ..< entropy s + 24].
                    \<not> list_ex (\<lambda>x. mfa_id x = randomUUID ext i) (mfaSettings s)
                  \<and> \<not> list_ex (\<lambda>c. bc_id c = randomUUID ext i) (mfaBackupCodes s)"
    and up: "upsertMfaSetting ext s (ch_userId ch) se (ch_deviceName ch) (Some now) = (Inr m, s1)"
    and e1: "entropy s1 = entropy s \<or> entropy s1 = entropy s + 1"
    and b1: "mfaBackupCodes s1 = mfaBackupCodes s"
  shows "verifyMfaChallenge ext env now s cid code rememberDevice
      = (Inr (VerifyMfaSetupResult (map toUpperCase (generateBackupCodes ext (entropy s1) 8)) now),
         createAuditEvent
           (snd (consumeMfaChallenge
              (s1\<lparr>entropy := entropy s1 + 24,
                  mfaBackupCodes :=
                    deleteMany (\<lambda>c. bc_userMfaId c = mfa_id m) (mfaBackupCodes s1)
                    @ map (\<lambda>code. \<lparr>bc_id = fst code, bc_userMfaId = mfa_id m,
                                    bc_codeHash = snd code, bc_usedAt = None\<rparr>)
                        (hashBackupCodes ext (entropy s1 + 8)
                           (map toUpperCase (generateBackupCodes ext (entropy s1) 8)))\<rparr>)
              cid now))
           ''auth.mfa.setup.completed'' (ch_userId ch))"
proof -
  have cid: "ch_id ch = cid"
    using findUnique_Some_holds [OF ch [unfolded findMfaChallengeById_def]] by auto
  let ?codes = "map toUpperCase (generateBackupCodes ext (entropy s1) 8)"
  let ?hashed = "hashBackupCodes ext (entropy s1 + 8) ?codes"
  let ?s2 = "s1\<lparr>entropy := entropy s1 + 24\<rparr>"
  from generateBackupCodes_format [OF rnd, of "entropy s1" 8]
  have fmt: "length ?codes = 8" by auto
  have hids: "map fst ?hashed = map (randomUUID ext) (map (\<lambda>i. entropy s1 + 8 + 2 * i) [0..<8])"
    using fmt by (simp add: hashBackupCodes_ids o_def del: upt_Suc)
  have sub: "set (map (\<lambda>i. entropy s1 + 8 + 2 * i) [0..<8]) \<subseteq> set [entropy s ..< entropy s + 24]"
    using e1 by auto
  have d1: "distinct (map fst ?hashed)"
    unfolding hids by (rule distinct_map_subset [OF ids sub]) (simp add: distinct_map inj_on_def)
  have d2: "\<forall>c \<in> set (mfaBackupCodes ?s2). bc_id c \<notin> set (map fst ?hashed)"
  proof
    fix c assume c: "c \<in> set (mfaBackupCodes ?s2)"
    show "bc_id c \<notin> set (map fst ?hashed)"
    proof
      assume "bc_id c \<in> set (map fst ?hashed)"
      then obtain j where "j \<in> set (map (\<lambda>i. entropy s1 + 8 + 2 * i) [0..<8])"
        "bc_id c = randomUUID ext j"
        unfolding hids by auto
      with sub have "j \<in> set [entropy s ..< entropy s + 24]" by blast
      with idfresh have "\<not> list_ex (\<lambda>c. bc_id c = randomUUID ext j) (mfaBackupCodes s)" by blast
      with c \<open>bc_id c = randomUUID ext j\<close> show False
        by (auto simp: list_ex_iff b1)
    qed
  qed
  have noclash: "\<not> list_ex (\<lambda>c. bc_id c \<in> set (map fst ?hashed))
                     (deleteMany (\<lambda>c. bc_userMfaId c = mfa_id m) (mfaBackupCodes ?s2))"
    using d2 by (auto simp: list_ex_iff deleteMany_def)
  have ne: "?hashed \<noteq> []" using fmt by (cases ?codes) auto
  have rp: "replaceMfaBackupCodes ?s2 (mfa_id m) ?hashed
      = Inr (?s2\<lparr>mfaBackupCodes :=
                   deleteMany (\<lambda>c. bc_userMfaId c = mfa_id m) (mfaBackupCodes ?s2)
                   @ map (\<lambda>code. \<lparr>bc_id = fst code, bc_userMfaId = mfa_id m,
                                   bc_codeHash = snd code, bc_usedAt = None\<rparr>) ?hashed\<rparr>)"
    using ne d1 noclash by (simp add: replaceMfaBackupCodes_def Let_def)
  have res: "completeSetupChallenge ext env now s ch code
      = (Inr (?codes, now),
         createAuditEvent
           (snd (consumeMfaChallenge
              (?s2\<lparr>mfaBackupCodes :=
                   deleteMany (\<lambda>c. bc_userMfaId c = mfa_id m) (mfaBackupCodes ?s2)
                   @ map (\<lambda>code. \<lparr>bc_id = fst code, bc_userMfaId = mfa_id m,
                                   bc_codeHash = snd code, bc_usedAt = None\<rparr>) ?hashed\<rparr>)
              cid now))
           ''auth.mfa.setup.completed'' (ch_userId ch))"
    using se dec valid up rp cid
    by (simp add: completeSetupChallenge_def Let_def BACKUP_CODE_COUNT_def split: prod.splits)
  show ?thesis
    using ch ty live uncons res by (simp add: verifyMfaChallenge_def)
qed

lemma upsertMfaSetting_entropy:
  "upsertMfaSetting ext s uid se dn a = (r, s1) \<Longrightarrow>
   entropy s1 = (if getMfaConfiguration s uid = None then entropy s + 1 else entropy s)"
  by (auto simp: upsertMfaSetting_def getMfaConfiguration_def Let_def
      split: option.splits sum.splits)

lemma hashBackupCodes_cong:
  assumes "length cs = length cs'"
    and "\<forall>i < length cs. argon2_hash ext (k + 2 * i + 1) (cs ! i)
                           = argon2_hash ext (k + 2 * i + 1) (cs' ! i)"
  shows "hashBackupCodes ext k cs = hashBackupCodes ext k cs'"
proof (rule nth_equalityI)
  show "length (hashBackupCodes ext k cs) = length (hashBackupCodes ext k cs')"
    using assms(1) by (simp add: hashBackupCodes_length)
next
  fix i assume "i < length (hashBackupCodes ext k cs)"
  then have i: "i < length cs" "i < length cs'"
    using assms(1) by (simp_all add: hashBackupCodes_length)
  show "hashBackupCodes ext k cs ! i = hashBackupCodes ext k cs' ! i"
    using assms(2) i by (simp add: hashBackupCodes_nth)
qed

text \<open>
  C6. For a live setup challenge whose pending secret decrypts and whose submitted code
  passes TOTP verification, with a random source that returns the bytes asked for and
  ids that are distinct and not yet stored: \<open>verifyMfaChallenge\<close> returns eight codes,
  each matching \<open>BACKUP_CODE_PATTERN\<close>, and the activation instant \<open>now\<close>; the user's
  configuration is stored with \<open>activatedAt = now\<close>; the stored backup codes of that
  configuration are exactly eight unused rows, one per returned code in order, each
  holding an argon2 hash of its code and no plaintext; and the challenge is stored as
  consumed at \<open>now\<close>.

  The codes are freshly generated: the \<open>i\<close>-th code spells, in base 32, the forty
  bits of the \<open>i\<close>-th draw of five random bytes made in this call, draws \<open>n .. n + 7\<close>
  of the random source, where \<open>n\<close> is the first draw after the one that may have
  named a new configuration; when the call returns, the counter of draws stands at
  \<open>n + 24\<close>, past them.

  The codes are not retrievable afterwards: the store the call leaves depends on
  them only through their argon2 hashes. Had the random source returned other bytes,
  and so other codes, whose hashes under the same salts are the same, the call would
  have left the very same store; every later operation starts from that store.
\<close>

theorem setup_challenge_success:
  assumes ch: "findMfaChallengeById s cid = Some ch"
    and ty: "ch_type ch = Setup"
    and live: "\<not> ch_expiresAt ch < now"
    and uncons: "ch_consumedAt ch = None"
    and se: "ch_secretEncrypted ch = Some se" "se \<noteq> []"
    and dec: "decrypt ext se (MFA_ENCRYPTION_KEY env) = Some secret"
    and valid: "isValidTotpToken ext secret code 6 30 1 now = Inr True"
    and rnd: "\<forall>n. length (randomBytes ext n 5) = 5"
    and ids: "distinct (map (randomUUID ext) [entropy s ..< entropy s + 24])"
    and idfresh: "\<forall>i \<in> set [entropy s ..< entropy s + 24].
                    \<not> list_ex (\<lambda>x. mfa_id x = randomUUID ext i) (mfaSettings s)
                  \<and> \<not> list_ex (\<lambda>c. bc_id c = randomUUID ext i) (mfaBackupCodes s)"
  shows "\<exists>codes m s' n.
      verifyMfaChallenge ext env now s cid code rememberDevice
        = (Inr (VerifyMfaSetupResult codes now), s')
    \<and> length codes = 8
    \<and> (\<forall>c \<in> set codes. BACKUP_CODE_PATTERN c)
    \<and> getMfaConfiguration s' (ch_userId ch) = Some m
    \<and> mfa_activatedAt m = Some now
    \<and> list_all2 (\<lambda>r c. bc_userMfaId r = mfa_id m \<and> bc_usedAt r = None
                        \<and> (\<exists>salt. bc_codeHash r = argon2_hash ext salt c))
         (listMfaBackupCodes s' (mfa_id m)) codes
    \<and> findMfaChallengeById s' cid = Some (ch\<lparr>ch_consumedAt := Some now\<rparr>)
    \<and> n = (if getMfaConfiguration s (ch_userId ch) = None then entropy s + 1 else entropy s)
    \<and> entropy s' = n + 24
    \<and> (\<forall>i < 8. codes ! i = code_of_value (be_value (randomBytes ext (n + i) 5)))
    \<and> (\<forall>i < 8. bc_codeHash (listMfaBackupCodes s' (mfa_id m) ! i)
                   = argon2_hash ext (n + 9 + 2 * i) (codes ! i))
    \<and> (\<forall>rb codes2 s2.
          (\<forall>k. length (rb k 5) = 5)
          \<and> verifyMfaChallenge (ext\<lparr>randomBytes := rb\<rparr>) env now s cid code rememberDevice
              = (Inr (VerifyMfaSetupResult codes2 now), s2)
          \<and> (\<forall>i < 8. argon2_hash ext (n + 9 + 2 * i) (codes2 ! i)
                        = argon2_hash ext (n + 9 + 2 * i) (codes ! i))
          \<longrightarrow> s2 = s')"
proof -
  have cid: "ch_id ch = cid" "list_ex (\<lambda>c. ch_id c = cid) (mfaChallenges s)"
    using findUnique_Some_holds [OF ch [unfolded findMfaChallengeById_def]]
      findUnique_Some_ex [OF ch [unfolded findMfaChallengeById_def]] by auto
  have "getMfaConfiguration s (ch_userId ch) = None \<longrightarrow>
             \<not> list_ex (\<lambda>x. mfa_id x = randomUUID ext (entropy s)) (mfaSettings s)"
    using idfresh by (simp add: upt_conv_Cons)
  from upsertMfaSetting_activates [OF this, of se "ch_deviceName ch" now]
  obtain m s1 where up:
    "upsertMfaSetting ext s (ch_userId ch) se (ch_deviceName ch) (Some now) = (Inr m, s1)"
    "getMfaConfiguration s1 (ch_userId ch) = Some m" "mfa_activatedAt m = Some now"
    "entropy s1 = entropy s \<or> entropy s1 = entropy s + 1"
    "mfaBackupCodes s1 = mfaBackupCodes s" "mfaChallenges s1 = mfaChallenges s"
    by blast
  define n where "n = entropy s1"
  have n: "n = (if getMfaConfiguration s (ch_userId ch) = None then entropy s + 1 else entropy s)"
    unfolding n_def by (rule upsertMfaSetting_entropy [OF up(1)])
  define row where "row = (\<lambda>code :: string \<times> string.
      \<lparr>bc_id = fst code, bc_userMfaId = mfa_id m, bc_codeHash = snd code, bc_usedAt = None\<rparr>)"
  define final where "final = (\<lambda>hashed.
      createAuditEvent
        (snd (consumeMfaChallenge
           (s1\<lparr>entropy := entropy s1 + 24,
               mfaBackupCodes :=
                 deleteMany (\<lambda>c. bc_userMfaId c = mfa_id m) (mfaBackupCodes s1) @ map row hashed\<rparr>)
           cid now))
        ''auth.mfa.setup.completed'' (ch_userId ch))"
  define codes where "codes = map toUpperCase (generateBackupCodes ext n 8)"
  define hashed where "hashed = hashBackupCodes ext (n + 8) codes"
  have v: "verifyMfaChallenge ext env now s cid code rememberDevice
        = (Inr (VerifyMfaSetupResult codes now), final hashed)"
    using setup_challenge_run [OF ch ty live uncons se dec valid rnd ids idfresh up(1,4,5),
        of rememberDevice]
    by (simp add: final_def row_def codes_def hashed_def n_def)
  from generateBackupCodes_format [OF rnd, of n 8]
  have fmt: "length codes = 8" "\<forall>c \<in> set codes. BACKUP_CODE_PATTERN c"
    by (auto simp: codes_def)
  have conf: "getMfaConfiguration (final hashed) (ch_userId ch) = Some m"
    using up(2)
    by (simp add: final_def getMfaConfiguration_def createAuditEvent_def consumeMfaChallenge_def
        split: sum.splits)
  have chal: "findMfaChallengeById (final hashed) cid = Some (ch\<lparr>ch_consumedAt := Some now\<rparr>)"
    using cid ch up(6)
    by (simp add: final_def findMfaChallengeById_def createAuditEvent_def consumeMfaChallenge_def
        update_row_def findUnique_updateMany)
  have f1: "filter (\<lambda>c. bc_userMfaId c = mfa_id m)
              (deleteMany (\<lambda>c. bc_userMfaId c = mfa_id m) (mfaBackupCodes s1)) = []"
    by (simp add: deleteMany_def filter_empty_conv)
  have rows: "listMfaBackupCodes (final hashed) (mfa_id m) = map row hashed"
    by (simp add: final_def listMfaBackupCodes_def createAuditEvent_def consumeMfaChallenge_def
        f1 row_def filter_map comp_def split: sum.splits)
  have stored: "list_all2 (\<lambda>r c. bc_userMfaId r = mfa_id m \<and> bc_usedAt r = None
                        \<and> (\<exists>salt. bc_codeHash r = argon2_hash ext salt c))
         (listMfaBackupCodes (final hashed) (mfa_id m)) codes"
    unfolding rows
    using hashBackupCodes_hashes [of ext "n + 8" codes, folded hashed_def]
    by (simp add: list_all2_map1 row_def)
  have ent: "entropy (final hashed) = n + 24"
    by (simp add: final_def createAuditEvent_def consumeMfaChallenge_def n_def split: sum.splits)
  have fresh: "\<forall>i < 8. codes ! i = code_of_value (be_value (randomBytes ext (n + i) 5))"
    unfolding codes_def using generateBackupCodes_nth [OF rnd] by blast
  have hashes: "\<forall>i < 8. bc_codeHash (listMfaBackupCodes (final hashed) (mfa_id m) ! i)
                   = argon2_hash ext (n + 9 + 2 * i) (codes ! i)"
  proof (intro allI impI)
    fix i :: nat assume i: "i < 8"
    then have il: "i < length hashed" "i < length codes"
      using fmt(1) by (simp_all add: hashed_def hashBackupCodes_length)
    have nth: "hashed ! i = (randomUUID ext (n + 8 + 2 * i),
                             argon2_hash ext (n + 8 + 2 * i + 1) (codes ! i))"
      unfolding hashed_def using il(2) by (rule hashBackupCodes_nth)
    have "bc_codeHash (map row hashed ! i) = snd (hashed ! i)"
      using il(1) by (simp add: row_def)
    also have "\<dots> = argon2_hash ext (n + 8 + 2 * i + 1) (codes ! i)"
      by (simp only: nth snd_conv)
    also have "n + 8 + 2 * i + 1 = n + 9 + 2 * i" by simp
    finally show "bc_codeHash (listMfaBackupCodes (final hashed) (mfa_id m) ! i)
                   = argon2_hash ext (n + 9 + 2 * i) (codes ! i)"
      unfolding rows .
  qed
  have other: "\<forall>rb codes2 s2.
          (\<forall>k. length (rb k 5) = 5)
          \<and> verifyMfaChallenge (ext\<lparr>randomBytes := rb\<rparr>) env now s cid code rememberDevice
              = (Inr (VerifyMfaSetupResult codes2 now), s2)
          \<and> (\<forall>i < 8. argon2_hash ext (n + 9 + 2 * i) (codes2 ! i)
                        = argon2_hash ext (n + 9 + 2 * i) (codes ! i))
          \<longrightarrow> s2 = final hashed"
  proof (intro allI impI, elim conjE)
    fix rb codes2 s2
    let ?ext = "ext\<lparr>randomBytes := rb\<rparr>"
    assume rnd2: "\<forall>k. length (rb k 5) = 5"
      and run2: "verifyMfaChallenge ?ext env now s cid code rememberDevice
                   = (Inr (VerifyMfaSetupResult codes2 now), s2)"
      and same: "\<forall>i < 8. argon2_hash ext (n + 9 + 2 * i) (codes2 ! i)
                        = argon2_hash ext (n + 9 + 2 * i) (codes ! i)"
    have dec2: "decrypt ?ext se (MFA_ENCRYPTION_KEY env) = Some secret" using dec by simp
    have valid2: "isValidTotpToken ?ext secret code 6 30 1 now = Inr True"
      using valid by (simp add: isValidTotpToken_randomBytes)
    have rnd2': "\<forall>n. length (randomBytes ?ext n 5) = 5" using rnd2 by simp
    have ids2: "distinct (map (randomUUID ?ext) [entropy s ..< entropy s + 24])"
      using ids by simp
    have idfresh2: "\<forall>i \<in> set [entropy s ..< entropy s + 24].
                    \<not> list_ex (\<lambda>x. mfa_id x = randomUUID ?ext i) (mfaSettings s)
                  \<and> \<not> list_ex (\<lambda>c. bc_id c = randomUUID ?ext i) (mfaBackupCodes s)"
      using idfresh by simp
    have up2: "upsertMfaSetting ?ext s (ch_userId ch) se (ch_deviceName ch) (Some now) = (Inr m, s1)"
      using up(1) by (simp add: upsertMfaSetting_randomBytes)
    define codes' where "codes' = map toUpperCase (generateBackupCodes ?ext n 8)"
    have v2: "verifyMfaChallenge ?ext env now s cid code rememberDevice
        = (Inr (VerifyMfaSetupResult codes' now), final (hashBackupCodes ext (n + 8) codes'))"
      using setup_challenge_run [OF ch ty live uncons se dec2 valid2 rnd2' ids2 idfresh2 up2
          up(4,5), of rememberDevice]
      by (simp add: final_def row_def codes'_def n_def hashBackupCodes_randomBytes)
    from run2 v2 have eq: "codes2 = codes'" "s2 = final (hashBackupCodes ext (n + 8) codes')"
      by auto
    from generateBackupCodes_format [OF rnd2', of n 8]
    have len2: "length codes' = 8" by (auto simp: codes'_def)
    have "hashBackupCodes ext (n + 8) codes' = hashBackupCodes ext (n + 8) codes"
    proof (rule hashBackupCodes_cong)
      show "length codes' = length codes" using len2 fmt(1) by simp
      show "\<forall>i < length codes'. argon2_hash ext (n + 8 + 2 * i + 1) (codes' ! i)
                           = argon2_hash ext (n + 8 + 2 * i + 1) (codes ! i)"
      proof (intro allI impI)
        fix i assume "i < length codes'"
        then have "i < 8" using len2 by simp
        with same have "argon2_hash ext (n + 9 + 2 * i) (codes' ! i)
                        = argon2_hash ext (n + 9 + 2 * i) (codes ! i)"
          unfolding eq(1) by blast
        moreover have "n + 8 + 2 * i + 1 = n + 9 + 2 * i" by simp
        ultimately show "argon2_hash ext (n + 8 + 2 * i + 1) (codes' ! i)
                           = argon2_hash ext (n + 8 + 2 * i + 1) (codes ! i)"
          by (simp only:)
      qed
    qed
    then show "s2 = final hashed" by (simp add: eq(2) hashed_def)
  qed
  from v fmt conf up(3) stored chal n ent fresh hashes other show ?thesis by blast
qed

theorem setup_challenge_success_witness:
  "(\<exists>codes m s'.
      verifyMfaChallenge ext0 env0 now0 store0 ''c3'' ''406378'' False
        = (Inr (VerifyMfaSetupResult codes now0), s')
    \<and> length codes = 8
    \<and> (\<forall>c \<in> set codes. BACKUP_CODE_PATTERN c)
    \<and> getMfaConfiguration s' ''u3'' = Some m
    \<and> mfa_activatedAt m = Some now0
    \<and> length (listMfaBackupCodes s' (mfa_id m)) = 8
    \<and> findMfaChallengeById s' ''c3''
        = Some (challenge_row ''c3'' ''u3'' None Setup (Some ''enc:JBSWY3DPEHPK3PXP'') (Some now0))
    \<and> entropy s' = 25
    \<and> codes ! 0 = ''GAYD-AMBQ''
    \<and> bc_codeHash (listMfaBackupCodes s' (mfa_id m) ! 0) = ''$argon2id$GAYD-AMBQ'')
  \<and> (\<exists>codes1 codes2 s1.
      verifyMfaChallenge ext1 env0 now0 store0 ''c3'' ''406378'' False
        = (Inr (VerifyMfaSetupResult codes1 now0), s1)
    \<and> verifyMfaChallenge (ext1\<lparr>randomBytes := \<lambda>n k. replicate k 0\<rparr>) env0 now0 store0
          ''c3'' ''406378'' False
        = (Inr (VerifyMfaSetupResult codes2 now0), s1)
    \<and> codes1 ! 0 = ''GAYD-AMBQ''
    \<and> codes2 ! 0 = ''AAAA-AAAA'')"
proof -
  let ?ch = "challenge_row ''c3'' ''u3'' None Setup (Some ''enc:JBSWY3DPEHPK3PXP'') None"
  let ?rb = "\<lambda>(n :: nat) k. replicate k (0 :: 8 word)"
  let ?ext2 = "ext1\<lparr>randomBytes := ?rb\<rparr>"
  have ty: "ch_type ?ch = Setup" and live: "\<not> ch_expiresAt ?ch < now0"
    and uncons: "ch_consumedAt ?ch = None"
    and se: "ch_secretEncrypted ?ch = Some ''enc:JBSWY3DPEHPK3PXP''" "''enc:JBSWY3DPEHPK3PXP'' \<noteq> []"
    by (simp_all add: challenge_row_def)
  have dec: "decrypt ext0 ''enc:JBSWY3DPEHPK3PXP'' (MFA_ENCRYPTION_KEY env0) = Some ''JBSWY3DPEHPK3PXP''"
    "decrypt ext1 ''enc:JBSWY3DPEHPK3PXP'' (MFA_ENCRYPTION_KEY env0) = Some ''JBSWY3DPEHPK3PXP''"
    "decrypt ?ext2 ''enc:JBSWY3DPEHPK3PXP'' (MFA_ENCRYPTION_KEY env0) = Some ''JBSWY3DPEHPK3PXP''"
    by (simp_all add: ext0_def ext1_def)
  have valid: "isValidTotpToken ext1 ''JBSWY3DPEHPK3PXP'' ''406378'' 6 30 1 now0 = Inr True"
    "isValidTotpToken ?ext2 ''JBSWY3DPEHPK3PXP'' ''406378'' 6 30 1 now0 = Inr True"
  proof -
    have "hmac_sha1 ext1 = hmac_sha1 ext0" "hmac_sha1 ?ext2 = hmac_sha1 ext0"
      by (simp_all add: ext1_def)
    from isValidTotpToken_hmac_cong [OF this(1)] isValidTotpToken_hmac_cong [OF this(2)]
    show "isValidTotpToken ext1 ''JBSWY3DPEHPK3PXP'' ''406378'' 6 30 1 now0 = Inr True"
      "isValidTotpToken ?ext2 ''JBSWY3DPEHPK3PXP'' ''406378'' 6 30 1 now0 = Inr True"
      using isValidTotpToken_fixture(1) by simp_all
  qed
  have rnd: "\<forall>n. length (randomBytes ext0 n 5) = 5" "\<forall>n. length (randomBytes ext1 n 5) = 5"
    "\<forall>n. length (randomBytes ?ext2 n 5) = 5"
    by (simp_all add: ext0_def ext1_def)
  have e0: "entropy store0 = 0" by (simp add: store0_def)
  have ids: "distinct (map (randomUUID ext0) [entropy store0 ..< entropy store0 + 24])"
    "distinct (map (randomUUID ext1) [entropy store0 ..< entropy store0 + 24])"
    "distinct (map (randomUUID ?ext2) [entropy store0 ..< entropy store0 + 24])"
    unfolding e0 by (simp_all add: ext0_def ext1_def upt_rec)
  have idfresh: "\<forall>i \<in> set [entropy store0 ..< entropy store0 + 24].
                    \<not> list_ex (\<lambda>x. mfa_id x = randomUUID ext0 i) (mfaSettings store0)
                  \<and> \<not> list_ex (\<lambda>c. bc_id c = randomUUID ext0 i) (mfaBackupCodes store0)"
    unfolding e0 by (simp add: ext0_def store0_def alice_mfa_def)
  have idfresh1: "\<forall>i \<in> set [entropy store0 ..< entropy store0 + 24].
                    \<not> list_ex (\<lambda>x. mfa_id x = randomUUID ext1 i) (mfaSettings store0)
                  \<and> \<not> list_ex (\<lambda>c. bc_id c = randomUUID ext1 i) (mfaBackupCodes store0)"
    using idfresh by (simp add: ext1_def)
  have idfresh2: "\<forall>i \<in> set [entropy store0 ..< entropy store0 + 24].
                    \<not> list_ex (\<lambda>x. mfa_id x = randomUUID ?ext2 i) (mfaSettings store0)
                  \<and> \<not> list_ex (\<lambda>c. bc_id c = randomUUID ?ext2 i) (mfaBackupCodes store0)"
    using idfresh by (simp add: ext1_def)
  have none: "getMfaConfiguration store0 (ch_userId ?ch) = None"
    by (simp add: getMfaConfiguration_def store0_def challenge_row_def alice_mfa_def)
  have five: "replicate 5 x = [x, x, x, x, x]" for x :: "8 word"
    by (simp add: numeral_eq_Suc)
  have bytes: "randomBytes ext0 1 5 = [48, 48, 48, 48, 48]"
    "randomBytes ext1 1 5 = [48, 48, 48, 48, 48]"
    by (simp_all add: ext0_def ext1_def five)
  have draw: "code_of_value (be_value [48, 48, 48, 48, 48]) = ''GAYD-AMBQ''"
    "code_of_value (be_value [0, 0, 0, 0, 0]) = ''AAAA-AAAA''"
    by (simp_all add: be_value_def code_of_value_def BASE32_ALPHABET_def)
  from setup_challenge_success [OF store0_mfa(3) ty live uncons se dec(1)
      isValidTotpToken_fixture(1) rnd(1) ids(1) idfresh, of False]
  obtain codes m s' n where r:
    "verifyMfaChallenge ext0 env0 now0 store0 ''c3'' ''406378'' False
        = (Inr (VerifyMfaSetupResult codes now0), s')"
    "length codes = 8" "\<forall>c \<in> set codes. BACKUP_CODE_PATTERN c"
    "getMfaConfiguration s' (ch_userId ?ch) = Some m" "mfa_activatedAt m = Some now0"
    "list_all2 (\<lambda>r c. bc_userMfaId r = mfa_id m \<and> bc_usedAt r = None
                        \<and> (\<exists>salt. bc_codeHash r = argon2_hash ext0 salt c))
         (listMfaBackupCodes s' (mfa_id m)) codes"
    "findMfaChallengeById s' ''c3'' = Some (?ch\<lparr>ch_consumedAt := Some now0\<rparr>)"
    "n = (if getMfaConfiguration store0 (ch_userId ?ch) = None then entropy store0 + 1
          else entropy store0)"
    "entropy s' = n + 24"
    "\<forall>i < 8. codes ! i = code_of_value (be_value (randomBytes ext0 (n + i) 5))"
    "\<forall>i < 8. bc_codeHash (listMfaBackupCodes s' (mfa_id m) ! i)
                   = argon2_hash ext0 (n + 9 + 2 * i) (codes ! i)"
    by blast
  have n1: "n = 1" using r(8) none e0 by simp
  from r(6) have len: "length (listMfaBackupCodes s' (mfa_id m)) = length codes"
    by (rule list_all2_lengthD)
  have c0: "codes ! 0 = ''GAYD-AMBQ''" using r(10) n1 draw(1) bytes(1) by simp
  have h0: "bc_codeHash (listMfaBackupCodes s' (mfa_id m) ! 0) = ''$argon2id$GAYD-AMBQ''"
    using r(11) c0 by (simp add: ext0_def)
  from r(1-5,7) r(9) n1 len c0 h0 have first: "\<exists>codes m s'.
      verifyMfaChallenge ext0 env0 now0 store0 ''c3'' ''406378'' False
        = (Inr (VerifyMfaSetupResult codes now0), s')
    \<and> length codes = 8
    \<and> (\<forall>c \<in> set codes. BACKUP_CODE_PATTERN c)
    \<and> getMfaConfiguration s' ''u3'' = Some m
    \<and> mfa_activatedAt m = Some now0
    \<and> length (listMfaBackupCodes s' (mfa_id m)) = 8
    \<and> findMfaChallengeById s' ''c3''
        = Some (challenge_row ''c3'' ''u3'' None Setup (Some ''enc:JBSWY3DPEHPK3PXP'') (Some now0))
    \<and> entropy s' = 25
    \<and> codes ! 0 = ''GAYD-AMBQ''
    \<and> bc_codeHash (listMfaBackupCodes s' (mfa_id m) ! 0) = ''$argon2id$GAYD-AMBQ''"
    by (auto simp: challenge_row_def)
  from setup_challenge_success [OF store0_mfa(3) ty live uncons se dec(2) valid(1) rnd(2) ids(2)
      idfresh1, of False]
  obtain codes1 m1 s1 k1 where a:
    "verifyMfaChallenge ext1 env0 now0 store0 ''c3'' ''406378'' False
        = (Inr (VerifyMfaSetupResult codes1 now0), s1)"
    "k1 = (if getMfaConfiguration store0 (ch_userId ?ch) = None then entropy store0 + 1
           else entropy store0)"
    "\<forall>i < 8. codes1 ! i = code_of_value (be_value (randomBytes ext1 (k1 + i) 5))"
    "\<forall>rb codes2 s2.
          (\<forall>k. length (rb k 5) = 5)
          \<and> verifyMfaChallenge (ext1\<lparr>randomBytes := rb\<rparr>) env0 now0 store0 ''c3'' ''406378'' False
              = (Inr (VerifyMfaSetupResult codes2 now0), s2)
          \<and> (\<forall>i < 8. argon2_hash ext1 (k1 + 9 + 2 * i) (codes2 ! i)
                        = argon2_hash ext1 (k1 + 9 + 2 * i) (codes1 ! i))
          \<longrightarrow> s2 = s1"
    by blast
  from setup_challenge_success [OF store0_mfa(3) ty live uncons se dec(3) valid(2) rnd(3) ids(3)
      idfresh2, of False]
  obtain codes2 m2 s2 k2 where b:
    "verifyMfaChallenge ?ext2 env0 now0 store0 ''c3'' ''406378'' False
        = (Inr (VerifyMfaSetupResult codes2 now0), s2)"
    "\<forall>i < 8. codes2 ! i = code_of_value (be_value (randomBytes ?ext2 (k2 + i) 5))"
    by blast
  have "s2 = s1"
    using a(4) [rule_format, of ?rb codes2 s2] b(1) by (simp add: ext1_def)
  moreover have "codes1 ! 0 = ''GAYD-AMBQ''"
    using a(2,3) none e0 draw(1) bytes(2) by simp
  moreover have "codes2 ! 0 = ''AAAA-AAAA''"
    using b(2) draw(2) by (simp add: five)
  ultimately have second: "\<exists>codes1 codes2 s1.
      verifyMfaChallenge ext1 env0 now0 store0 ''c3'' ''406378'' False
        = (Inr (VerifyMfaSetupResult codes1 now0), s1)
    \<and> verifyMfaChallenge ?ext2 env0 now0 store0 ''c3'' ''406378'' False
        = (Inr (VerifyMfaSetupResult codes2 now0), s1)
    \<and> codes1 ! 0 = ''GAYD-AMBQ''
    \<and> codes2 ! 0 = ''AAAA-AAAA''"
    using a(1) b(1) by blast
  from first second show ?thesis by (rule conjI)
qed

section \<open>SHA-1 of a message of two blocks\<close>

lemma length_bytes_of_len64: "length (bytes_of_len64 n) = 8"
  by (simp add: bytes_of_len64_def)

lemma sha1_blocks_short: "length m < 64 \<Longrightarrow> sha1_blocks h m = h"
  by (simp add: sha1_blocks.simps)

lemma sha1_blocks_append:
  "length b = 64 \<Longrightarrow> sha1_blocks h (b @ m) = sha1_blocks (sha1_block h b) m"
  by (subst sha1_blocks.simps) simp

lemma sha1_two_blocks:
  assumes b1: "length b1 = 64" and n: "length m2 < 56"
  shows "sha1 (b1 @ m2)
         = sha1_digest (sha1_block (sha1_block sha1_init b1)
             (m2 @ [0x80] @ replicate (55 - length m2) 0 @ bytes_of_len64 (512 + 8 * length m2)))"
proof -
  let ?b2 = "m2 @ [0x80] @ replicate (55 - length m2) 0 @ bytes_of_len64 (512 + 8 * length m2)"
  have k: "(119 - (64 + length m2) mod 64) mod 64 = 55 - length m2"
    using n by (simp add: mod_if)
  have pad: "sha1_pad (b1 @ m2) = b1 @ ?b2"
    using b1 k by (simp add: sha1_pad_def)
  have len: "length ?b2 = 64"
    using n by (simp add: length_bytes_of_len64)
  have "sha1_blocks sha1_init (b1 @ ?b2) = sha1_blocks (sha1_block sha1_init b1) (?b2 @ [])"
    using b1 by (simp add: sha1_blocks_append)
  also have "\<dots> = sha1_blocks (sha1_block (sha1_block sha1_init b1) ?b2) []"
    using len by (rule sha1_blocks_append)
  also have "\<dots> = sha1_block (sha1_block sha1_init b1) ?b2"
    by (simp add: sha1_blocks_short)
  finally show ?thesis
    by (simp add: sha1_def pad)
qed

lemma zeros47:
  "replicate 47 (0 :: 8 word)
   = [0, 0, 0, 0, 0, 0, 0, 0, 0, 0, 0, 0, 0, 0, 0, 0, 0, 0, 0, 0, 0, 0, 0, 0, 0, 0, 0, 0, 0, 0, 0, 0,
      0, 0, 0, 0, 0, 0, 0, 0, 0, 0, 0, 0, 0, 0, 0]"
  by (simp add: numeral_eq_Suc)

lemma zeros35:
  "replicate 35 (0 :: 8 word)
   = [0, 0, 0, 0, 0, 0, 0, 0, 0, 0, 0, 0, 0, 0, 0, 0, 0, 0, 0, 0, 0, 0, 0, 0, 0, 0, 0, 0, 0, 0, 0, 0,
      0, 0, 0]"
  by (simp add: numeral_eq_Suc)

lemma len64_576: "bytes_of_len64 576 = [0, 0, 0, 0, 0, 0, 2, 64]"
  by (simp add: bytes_of_len64_def)

lemma len64_672: "bytes_of_len64 672 = [0, 0, 0, 0, 0, 0, 2, 160]"
  by (simp add: bytes_of_len64_def)

section \<open>The code computed from a MAC\<close>

lemma generateOtp_from_mac:
  assumes "0 \<le> c" "c < 2 ^ 64"
    and "hmac_sha1 ext secret (counter_buffer c) = h"
    and "uint (byte_at h (int (length h) - 1) AND 0xf) = off"
    and "push_bit 24 (byte_at h off AND 0x7f) OR push_bit 16 (byte_at h (off + 1) AND 0xff)
           OR push_bit 8 (byte_at h (off + 2) AND 0xff) OR (byte_at h (off + 3) AND 0xff) = bin"
  shows "generateOtp ext secret (Num c) d
         = Inr (padStart d CHR ''0'' (digits_of (unat bin mod 10 ^ d)))"
  using assms by (simp add: generateOtp_def Let_def)

section \<open>HMAC-SHA1 evaluated for the fixture secret\<close>

lemma hmac_key_block_fixture:
  "hmac_key_block [72, 101, 108, 108, 111, 33, 222, 173, 190, 239]
   = [72, 101, 108, 108, 111, 33, 222, 173, 190, 239, 0, 0, 0, 0, 0, 0, 0, 0, 0, 0, 0, 0, 0, 0,
    0, 0, 0, 0, 0, 0, 0, 0, 0, 0, 0, 0, 0, 0, 0, 0, 0, 0, 0, 0, 0, 0, 0, 0, 0, 0, 0, 0, 0, 0,
    0, 0, 0, 0, 0, 0, 0, 0, 0, 0]"
  by (simp add: hmac_key_block_def numeral_eq_Suc)

lemma sha1_block_ipad:
  "sha1_block
    sha1_init
    [126, 83, 90, 90, 89, 23, 232, 155, 136, 217, 54, 54, 54, 54, 54, 54, 54, 54, 54, 54, 54,
    54, 54, 54, 54, 54, 54, 54, 54, 54, 54, 54, 54, 54, 54, 54, 54, 54, 54, 54, 54, 54, 54, 54,
    54, 54, 54, 54, 54, 54, 54, 54, 54, 54, 54, 54, 54, 54, 54, 54, 54, 54, 54, 54]
   = (3715725260, 1380640354, 3878100862, 144215461, 2792695825)"
proof -
  have w: "words_be
    [126, 83, 90, 90, 89, 23, 232, 155, 136, 217, 54, 54, 54, 54, 54, 54, 54, 54, 54, 54, 54,
    54, 54, 54, 54, 54, 54, 54, 54, 54, 54, 54, 54, 54, 54, 54, 54, 54, 54, 54, 54, 54, 54, 54,
    54, 54, 54, 54, 54, 54, 54, 54, 54, 54, 54, 54, 54, 54, 54, 54, 54, 54, 54, 54]
   = [2119391834, 1494739099, 2295936566, 909522486, 909522486, 909522486, 909522486, 909522486,
    909522486, 909522486, 909522486, 909522486, 909522486, 909522486, 909522486, 909522486]"
    by (simp add: be32_def)
  show ?thesis
    unfolding sha1_block_def w sha1_init_def by (simp add: sha1_rounds.simps sha1_next_def sha1_f_def sha1_k_def rotl_def)
qed

lemma sha1_block_opad:
  "sha1_block
    sha1_init
    [20, 57, 48, 48, 51, 125, 130, 241, 226, 179, 92, 92, 92, 92, 92, 92, 92, 92, 92, 92, 92,
    92, 92, 92, 92, 92, 92, 92, 92, 92, 92, 92, 92, 92, 92, 92, 92, 92, 92, 92, 92, 92, 92, 92,
    92, 92, 92, 92, 92, 92, 92, 92, 92, 92, 92, 92, 92, 92, 92, 92, 92, 92, 92, 92]
   = (2634400316, 2437370271, 3036113104, 1192652808, 2427902477)"
proof -
  have w: "words_be
    [20, 57, 48, 48, 51, 125, 130, 241, 226, 179, 92, 92, 92, 92, 92, 92, 92, 92, 92, 92, 92,
    92, 92, 92, 92, 92, 92, 92, 92, 92, 92, 92, 92, 92, 92, 92, 92, 92, 92, 92, 92, 92, 92, 92,
    92, 92, 92, 92, 92, 92, 92, 92, 92, 92, 92, 92, 92, 92, 92, 92, 92, 92, 92, 92]
   = [339292208, 863863537, 3803405404, 1549556828, 1549556828, 1549556828, 1549556828,
    1549556828, 1549556828, 1549556828, 1549556828, 1549556828, 1549556828, 1549556828,
    1549556828, 1549556828]"
    by (simp add: be32_def)
  show ?thesis
    unfolding sha1_block_def w sha1_init_def by (simp add: sha1_rounds.simps sha1_next_def sha1_f_def sha1_k_def rotl_def)
qed

lemma sha1_block_inner_a:
  "sha1_block
    (3715725260, 1380640354, 3878100862, 144215461, 2792695825)
    [0, 0, 0, 0, 3, 112, 46, 68, 128, 0, 0, 0, 0, 0, 0, 0, 0, 0, 0, 0, 0, 0, 0, 0, 0, 0, 0, 0,
    0, 0, 0, 0, 0, 0, 0, 0, 0, 0, 0, 0, 0, 0, 0, 0, 0, 0, 0, 0, 0, 0, 0, 0, 0, 0, 0, 0, 0, 0,
    0, 0, 0, 0, 2, 64]
   = (2751693248, 2951625046, 4186101349, 314470089, 1667585539)"
proof -
  have w: "words_be
    [0, 0, 0, 0, 3, 112, 46, 68, 128, 0, 0, 0, 0, 0, 0, 0, 0, 0, 0, 0, 0, 0, 0, 0, 0, 0, 0, 0,
    0, 0, 0, 0, 0, 0, 0, 0, 0, 0, 0, 0, 0, 0, 0, 0, 0, 0, 0, 0, 0, 0, 0, 0, 0, 0, 0, 0, 0, 0,
    0, 0, 0, 0, 2, 64]
   = [0, 57683524, 2147483648, 0, 0, 0, 0, 0, 0, 0, 0, 0, 0, 0, 0, 576]"
    by (simp add: be32_def)
  show ?thesis
    unfolding sha1_block_def w sha1_init_def by (simp add: sha1_rounds.simps sha1_next_def sha1_f_def sha1_k_def rotl_def)
qed

lemma sha1_block_outer_a:
  "sha1_block
    (2634400316, 2437370271, 3036113104, 1192652808, 2427902477)
    [164, 3, 129, 192, 175, 238, 57, 86, 249, 130, 214, 101, 18, 190, 110, 201, 99, 101, 86, 3,
    128, 0, 0, 0, 0, 0, 0, 0, 0, 0, 0, 0, 0, 0, 0, 0, 0, 0, 0, 0, 0, 0, 0, 0, 0, 0, 0, 0, 0, 0,
    0, 0, 0, 0, 0, 0, 0, 0, 0, 0, 0, 0, 2, 160]
   = (2053955360, 942645978, 1392096674, 2943777999, 1960470762)"
proof -
  have w: "words_be
    [164, 3, 129, 192, 175, 238, 57, 86, 249, 130, 214, 101, 18, 190, 110, 201, 99, 101, 86, 3,
    128, 0, 0, 0, 0, 0, 0, 0, 0, 0, 0, 0, 0, 0, 0, 0, 0, 0, 0, 0, 0, 0, 0, 0, 0, 0, 0, 0, 0, 0,
    0, 0, 0, 0, 0, 0, 0, 0, 0, 0, 0, 0, 2, 160]
   = [2751693248, 2951625046, 4186101349, 314470089, 1667585539, 2147483648, 0, 0, 0, 0, 0, 0,
    0, 0, 0, 672]"
    by (simp add: be32_def)
  show ?thesis
    unfolding sha1_block_def w sha1_init_def by (simp add: sha1_rounds.simps sha1_next_def sha1_f_def sha1_k_def rotl_def)
qed

lemma sha1_inner_a:
  "sha1 ([126, 83, 90, 90, 89, 23, 232, 155, 136, 217, 54, 54, 54, 54, 54, 54, 54, 54, 54, 54, 54,
    54, 54, 54, 54, 54, 54, 54, 54, 54, 54, 54, 54, 54, 54, 54, 54, 54, 54, 54, 54, 54, 54, 54,
    54, 54, 54, 54, 54, 54, 54, 54, 54, 54, 54, 54, 54, 54, 54, 54, 54, 54, 54, 54]
    @ [0, 0, 0, 0, 3, 112, 46, 68])
   = [164, 3, 129, 192, 175, 238, 57, 86, 249, 130, 214, 101, 18, 190, 110, 201, 99, 101, 86,
    3]"
proof -
  have "length [126, 83, 90, 90, 89, 23, 232, 155, 136, 217, 54, 54, 54, 54, 54, 54, 54, 54, 54, 54, 54,
    54, 54, 54, 54, 54, 54, 54, 54, 54, 54, 54, 54, 54, 54, 54, 54, 54, 54, 54, 54, 54, 54, 54,
    54, 54, 54, 54, 54, 54, 54, 54, 54, 54, 54, 54, 54, 54, 54, 54, 54, 54, 54, 54] = 64"
    "length [0, 0, 0, 0, 3, 112, 46, 68] < 56"
    by simp_all
  from sha1_two_blocks [OF this] show ?thesis
    by (simp add: zeros47 len64_576 sha1_block_ipad sha1_block_inner_a bytes_of32_def)
qed

lemma sha1_outer_a:
  "sha1 ([20, 57, 48, 48, 51, 125, 130, 241, 226, 179, 92, 92, 92, 92, 92, 92, 92, 92, 92, 92, 92,
    92, 92, 92, 92, 92, 92, 92, 92, 92, 92, 92, 92, 92, 92, 92, 92, 92, 92, 92, 92, 92, 92, 92,
    92, 92, 92, 92, 92, 92, 92, 92, 92, 92, 92, 92, 92, 92, 92, 92, 92, 92, 92, 92]
    @ [164, 3, 129, 192, 175, 238, 57, 86, 249, 130, 214, 101, 18, 190, 110, 201, 99, 101, 86,
    3])
   = [122, 108, 223, 32, 56, 47, 162, 218, 82, 249, 181, 162, 175, 118, 124, 207, 116, 218, 104,
    234]"
proof -
  have "length [20, 57, 48, 48, 51, 125, 130, 241, 226, 179, 92, 92, 92, 92, 92, 92, 92, 92, 92, 92, 92,
    92, 92, 92, 92, 92, 92, 92, 92, 92, 92, 92, 92, 92, 92, 92, 92, 92, 92, 92, 92, 92, 92, 92,
    92, 92, 92, 92, 92, 92, 92, 92, 92, 92, 92, 92, 92, 92, 92, 92, 92, 92, 92, 92] = 64"
    "length [164, 3, 129, 192, 175, 238, 57, 86, 249, 130, 214, 101, 18, 190, 110, 201, 99, 101, 86,
    3] < 56"
    by simp_all
  from sha1_two_blocks [OF this] show ?thesis
    by (simp add: zeros35 len64_672 sha1_block_opad sha1_block_outer_a bytes_of32_def)
qed

lemma hmac_sha1_impl_a:
  "hmac_sha1_impl [72, 101, 108, 108, 111, 33, 222, 173, 190, 239] [0, 0, 0, 0, 3, 112, 46, 68]
   = [122, 108, 223, 32, 56, 47, 162, 218, 82, 249, 181, 162, 175, 118, 124, 207, 116, 218, 104,
    234]"
  unfolding hmac_sha1_impl_def hmac_key_block_fixture
  using sha1_inner_a sha1_outer_a by simp

lemma generateOtp_sha1_a:
  "generateOtp ext_sha1 [72, 101, 108, 108, 111, 33, 222, 173, 190, 239] (Num 57683524) 6 = Inr ''854198''"
proof -
  let ?h = "[122, 108, 223, 32, 56, 47, 162, 218, 82, 249, 181, 162, 175, 118, 124, 207, 116, 218,
      104, 234] :: 8 word list"
  have c: "counter_buffer 57683524 = [0, 0, 0, 0, 3, 112, 46, 68]"
    by (simp add: counter_buffer_def)
  have h: "hmac_sha1 ext_sha1 [72, 101, 108, 108, 111, 33, 222, 173, 190, 239] (counter_buffer 57683524) = ?h"
    unfolding c by (simp add: ext_sha1_def hmac_sha1_impl_a)
  have off: "uint (byte_at ?h (int (length ?h) - 1) AND 0xf) = 10"
    by (simp add: byte_at_def)
  have b: "byte_at ?h 10 = 181" "byte_at ?h (10 + 1) = 162" "byte_at ?h (10 + 2) = 175"
    "byte_at ?h (10 + 3) = 118"
    by (simp_all add: byte_at_def)
  have bin: "push_bit 24 (byte_at ?h 10 AND 0x7f) OR push_bit 16 (byte_at ?h (10 + 1) AND 0xff)
      OR push_bit 8 (byte_at ?h (10 + 2) AND 0xff) OR (byte_at ?h (10 + 3) AND 0xff) = 899854198"
    unfolding b by simp
  have "generateOtp ext_sha1 [72, 101, 108, 108, 111, 33, 222, 173, 190, 239] (Num 57683524) 6
        = Inr (padStart 6 CHR ''0'' (digits_of (unat (899854198 :: 32 word) mod 10 ^ 6)))"
    by (rule generateOtp_from_mac [OF _ _ h off bin]) simp_all
  also have "padStart 6 CHR ''0'' (digits_of (unat (899854198 :: 32 word) mod 10 ^ 6)) = ''854198''"
    by (simp add: padStart_def, simp add: digits_of.simps)
  finally show ?thesis .
qed

lemma sha1_block_inner_b:
  "sha1_block
    (3715725260, 1380640354, 3878100862, 144215461, 2792695825)
    [0, 0, 0, 0, 3, 112, 46, 69, 128, 0, 0, 0, 0, 0, 0, 0, 0, 0, 0, 0, 0, 0, 0, 0, 0, 0, 0, 0,
    0, 0, 0, 0, 0, 0, 0, 0, 0, 0, 0, 0, 0, 0, 0, 0, 0, 0, 0, 0, 0, 0, 0, 0, 0, 0, 0, 0, 0, 0,
    0, 0, 0, 0, 2, 64]
   = (3654138098, 1575706229, 769361264, 363180734, 683507170)"
proof -
  have w: "words_be
    [0, 0, 0, 0, 3, 112, 46, 69, 128, 0, 0, 0, 0, 0, 0, 0, 0, 0, 0, 0, 0, 0, 0, 0, 0, 0, 0, 0,
    0, 0, 0, 0, 0, 0, 0, 0, 0, 0, 0, 0, 0, 0, 0, 0, 0, 0, 0, 0, 0, 0, 0, 0, 0, 0, 0, 0, 0, 0,
    0, 0, 0, 0, 2, 64]
   = [0, 57683525, 2147483648, 0, 0, 0, 0, 0, 0, 0, 0, 0, 0, 0, 0, 576]"
    by (simp add: be32_def)
  show ?thesis
    unfolding sha1_block_def w sha1_init_def by (simp add: sha1_rounds.simps sha1_next_def sha1_f_def sha1_k_def rotl_def)
qed

lemma sha1_block_outer_b:
  "sha1_block
    (2634400316, 2437370271, 3036113104, 1192652808, 2427902477)
    [217, 205, 184, 242, 93, 235, 94, 117, 45, 219, 133, 112, 21, 165, 178, 190, 40, 189, 125,
    226, 128, 0, 0, 0, 0, 0, 0, 0, 0, 0, 0, 0, 0, 0, 0, 0, 0, 0, 0, 0, 0, 0, 0, 0, 0, 0, 0, 0,
    0, 0, 0, 0, 0, 0, 0, 0, 0, 0, 0, 0, 0, 0, 2, 160]
   = (2321973949, 890218278, 3434519039, 778891138, 1616943878)"
proof -
  have w: "words_be
    [217, 205, 184, 242, 93, 235, 94, 117, 45, 219, 133, 112, 21, 165, 178, 190, 40, 189, 125,
    226, 128, 0, 0, 0, 0, 0, 0, 0, 0, 0, 0, 0, 0, 0, 0, 0, 0, 0, 0, 0, 0, 0, 0, 0, 0, 0, 0, 0,
    0, 0, 0, 0, 0, 0, 0, 0, 0, 0, 0, 0, 0, 0, 2, 160]
   = [3654138098, 1575706229, 769361264, 363180734, 683507170, 2147483648, 0, 0, 0, 0, 0, 0, 0,
    0, 0, 672]"
    by (simp add: be32_def)
  show ?thesis
    unfolding sha1_block_def w sha1_init_def by (simp add: sha1_rounds.simps sha1_next_def sha1_f_def sha1_k_def rotl_def)
qed

lemma sha1_inner_b:
  "sha1 ([126, 83, 90, 90, 89, 23, 232, 155, 136, 217, 54, 54, 54, 54, 54, 54, 54, 54, 54, 54, 54,
    54, 54, 54, 54, 54, 54, 54, 54, 54, 54, 54, 54, 54, 54, 54, 54, 54, 54, 54, 54, 54, 54, 54,
    54, 54, 54, 54, 54, 54, 54, 54, 54, 54, 54, 54, 54, 54, 54, 54, 54, 54, 54, 54]
    @ [0, 0, 0, 0, 3, 112, 46, 69])
   = [217, 205, 184, 242, 93, 235, 94, 117, 45, 219, 133, 112, 21, 165, 178, 190, 40, 189, 125,
    226]"
proof -
  have "length [126, 83, 90, 90, 89, 23, 232, 155, 136, 217, 54, 54, 54, 54, 54, 54, 54, 54, 54, 54, 54,
    54, 54, 54, 54, 54, 54, 54, 54, 54, 54, 54, 54, 54, 54, 54, 54, 54, 54, 54, 54, 54, 54, 54,
    54, 54, 54, 54, 54, 54, 54, 54, 54, 54, 54, 54, 54, 54, 54, 54, 54, 54, 54, 54] = 64"
    "length [0, 0, 0, 0, 3, 112, 46, 69] < 56"
    by simp_all
  from sha1_two_blocks [OF this] show ?thesis
    by (simp add: zeros47 len64_576 sha1_block_ipad sha1_block_inner_b bytes_of32_def)
qed

lemma sha1_outer_b:
  "sha1 ([20, 57, 48, 48, 51, 125, 130, 241, 226, 179, 92, 92, 92, 92, 92, 92, 92, 92, 92, 92, 92,
    92, 92, 92, 92, 92, 92, 92, 92, 92, 92, 92, 92, 92, 92, 92, 92, 92, 92, 92, 92, 92, 92, 92,
    92, 92, 92, 92, 92, 92, 92, 92, 92, 92, 92, 92, 92, 92, 92, 92, 92, 92, 92, 92]
    @ [217, 205, 184, 242, 93, 235, 94, 117, 45, 219, 133, 112, 21, 165, 178, 190, 40, 189, 125,
    226])
   = [138, 102, 130, 189, 53, 15, 167, 38, 204, 182, 153, 255, 46, 108, 239, 130, 96, 96, 155,
    6]"
proof -
  have "length [20, 57, 48, 48, 51, 125, 130, 241, 226, 179, 92, 92, 92, 92, 92, 92, 92, 92, 92, 92, 92,
    92, 92, 92, 92, 92, 92, 92, 92, 92, 92, 92, 92, 92, 92, 92, 92, 92, 92, 92, 92, 92, 92, 92,
    92, 92, 92, 92, 92, 92, 92, 92, 92, 92, 92, 92, 92, 92, 92, 92, 92, 92, 92, 92] = 64"
    "length [217, 205, 184, 242, 93, 235, 94, 117, 45, 219, 133, 112, 21, 165, 178, 190, 40, 189, 125,
    226] < 56"
    by simp_all
  from sha1_two_blocks [OF this] show ?thesis
    by (simp add: zeros35 len64_672 sha1_block_opad sha1_block_outer_b bytes_of32_def)
qed

lemma hmac_sha1_impl_b:
  "hmac_sha1_impl [72, 101, 108, 108, 111, 33, 222, 173, 190, 239] [0, 0, 0, 0, 3, 112, 46, 69]
   = [138, 102, 130, 189, 53, 15, 167, 38, 204, 182, 153, 255, 46, 108, 239, 130, 96, 96, 155,
    6]"
  unfolding hmac_sha1_impl_def hmac_key_block_fixture
  using sha1_inner_b sha1_outer_b by simp

lemma generateOtp_sha1_b:
  "generateOtp ext_sha1 [72, 101, 108, 108, 111, 33, 222, 173, 190, 239] (Num 57683525) 6 = Inr ''854198''"
proof -
  let ?h = "[138, 102, 130, 189, 53, 15, 167, 38, 204, 182, 153, 255, 46, 108, 239, 130, 96, 96, 155,
      6] :: 8 word list"
  have c: "counter_buffer 57683525 = [0, 0, 0, 0, 3, 112, 46, 69]"
    by (simp add: counter_buffer_def)
  have h: "hmac_sha1 ext_sha1 [72, 101, 108, 108, 111, 33, 222, 173, 190, 239] (counter_buffer 57683525) = ?h"
    unfolding c by (simp add: ext_sha1_def hmac_sha1_impl_b)
  have off: "uint (byte_at ?h (int (length ?h) - 1) AND 0xf) = 6"
    by (simp add: byte_at_def)
  have b: "byte_at ?h 6 = 167" "byte_at ?h (6 + 1) = 38" "byte_at ?h (6 + 2) = 204"
    "byte_at ?h (6 + 3) = 182"
    by (simp_all add: byte_at_def)
  have bin: "push_bit 24 (byte_at ?h 6 AND 0x7f) OR push_bit 16 (byte_at ?h (6 + 1) AND 0xff)
      OR push_bit 8 (byte_at ?h (6 + 2) AND 0xff) OR (byte_at ?h (6 + 3) AND 0xff) = 656854198"
    unfolding b by simp
  have "generateOtp ext_sha1 [72, 101, 108, 108, 111, 33, 222, 173, 190, 239] (Num 57683525) 6
        = Inr (padStart 6 CHR ''0'' (digits_of (unat (656854198 :: 32 word) mod 10 ^ 6)))"
    by (rule generateOtp_from_mac [OF _ _ h off bin]) simp_all
  also have "padStart 6 CHR ''0'' (digits_of (unat (656854198 :: 32 word) mod 10 ^ 6)) = ''854198''"
    by (simp add: padStart_def, simp add: digits_of.simps)
  finally show ?thesis .
qed

section \<open>TOTP codes\<close>

lemma digit_char_is_digit: "n < 10 \<Longrightarrow> is_digit (''0123456789'' ! n)"
proof -
  assume "n < 10"
  then have "n \<in> {0, 1, 2, 3, 4, 5, 6, 7, 8, 9}" by auto
  then show ?thesis
    by (auto simp: is_digit_def char_between_def)
qed

lemma digits_of_digits: "list_all is_digit (digits_of n)"
proof (induction n rule: digits_of.induct)
  case (1 n)
  show ?case
  proof (cases "n < 10")
    case True
    then show ?thesis by (simp add: digit_char_is_digit)
  next
    case False
    then have "list_all is_digit (digits_of (n div 10))" by (rule 1)
    moreover have "is_digit (''0123456789'' ! (n mod 10))" by (rule digit_char_is_digit) simp
    ultimately show ?thesis using False by (subst digits_of.simps) simp
  qed
qed

lemma length_digits_of: "n < 10 ^ k \<Longrightarrow> 0 < k \<Longrightarrow> length (digits_of n) \<le> k"
proof (induction k arbitrary: n)
  case 0
  then show ?case by simp
next
  case (Suc k)
  show ?case
  proof (cases "n < 10")
    case True
    then show ?thesis by simp
  next
    case False
    with Suc.prems have k: "0 < k" by (cases k) auto
    have "n div 10 < 10 ^ k" using Suc.prems by (simp add: less_mult_imp_div_less mult.commute)
    then have "length (digits_of (n div 10)) \<le> k" using k by (rule Suc.IH)
    then show ?thesis using False by (subst digits_of.simps) simp
  qed
qed

lemma generateOtp_in_range:
  "0 \<le> c \<Longrightarrow> c < 2 ^ 64 \<Longrightarrow> \<exists>code. generateOtp ext buf (Num c) d = Inr code"
  by (simp add: generateOtp_def Let_def)

lemma generateOtp_shaped:
  assumes "generateOtp ext buf c 6 = Inr code"
  shows "is_totp_shaped code"
proof -
  obtain n where code: "code = padStart 6 CHR ''0'' (digits_of (n mod 10 ^ 6))"
    using assms by (auto simp: generateOtp_def Let_def split: if_splits number.splits)
  have "length (digits_of (n mod 10 ^ 6)) \<le> 6"
    by (rule length_digits_of) simp_all
  moreover have "list_all is_digit (digits_of (n mod 10 ^ 6))" by (rule digits_of_digits)
  moreover have "is_digit CHR ''0''" by (simp add: is_digit_def char_between_def)
  ultimately show ?thesis
    unfolding code is_totp_shaped_def padStart_def by (auto simp: list_all_iff)
qed

lemma totp_window_three:
  assumes "1 \<le> c" "c + 1 < 2 ^ 53"
  shows "totp_window ext buf (Num c) d token [- 1, 0, 1]
         = Inr (generateOtp ext buf (Num (c - 1)) d = Inr token
                \<or> generateOtp ext buf (Num c) d = Inr token
                \<or> generateOtp ext buf (Num (c + 1)) d = Inr token)"
proof -
  have add: "js_add (Num c) (- 1) = Num (c - 1)" "js_add (Num c) 0 = Num c"
    "js_add (Num c) 1 = Num (c + 1)"
    using assms js_add_exact [of c "- 1"] js_add_exact [of c 0] js_add_exact [of c 1] by simp_all
  have "c + 1 < 2 ^ 64" using assms(2) by simp
  then obtain x y z where "generateOtp ext buf (Num (c - 1)) d = Inr x"
    "generateOtp ext buf (Num c) d = Inr y" "generateOtp ext buf (Num (c + 1)) d = Inr z"
    using generateOtp_in_range [of "c - 1" ext buf d] generateOtp_in_range [of c ext buf d]
      generateOtp_in_range [of "c + 1" ext buf d] assms by auto
  then show ?thesis unfolding totp_window.simps add by auto
qed

lemma counter_in_range:
  fixes stepSeconds timestamp :: int
  assumes "0 < stepSeconds" "stepSeconds * 1000 \<le> timestamp" "timestamp < 2 ^ 53"
  shows "1 \<le> timestamp div (stepSeconds * 1000)" "timestamp div (stepSeconds * 1000) + 1 < 2 ^ 53"
proof -
  let ?m = "stepSeconds * 1000"
  have m: "1000 \<le> ?m" using assms(1) by simp
  have "?m div ?m \<le> timestamp div ?m" using assms(2) m by (intro zdiv_mono1) simp_all
  then show "1 \<le> timestamp div ?m" using m by simp
  have "timestamp div ?m \<le> timestamp div 1000" using assms m by (intro zdiv_mono2) simp_all
  also have "\<dots> < 2 ^ 52" using assms(3) by simp
  finally show "timestamp div ?m + 1 < 2 ^ 53" by simp
qed

text \<open>
  C8. Let \<open>stepSeconds\<close> be a positive integer and \<open>timestamp\<close> an integer with
  \<open>stepSeconds * 1000 \<le> timestamp < 2^53\<close>, so that the counter arithmetic on
  doubles is exact and the previous counter is not negative, and let the secret
  decode. Then \<open>generateTotp\<close> is the code of the counter
  \<open>timestamp div (stepSeconds * 1000)\<close>, the same for every timestamp of that
  step; \<open>isValidTotpToken\<close> with six digits and window 1 returns \<open>true\<close> exactly
  for the strings of six decimal digits equal to the code of the previous, the
  current or the next counter, and \<open>false\<close> for every other string; and a code
  generated for any counter, however far away, verifies exactly when it equals one
  of these three codes.
\<close>

theorem totp_accepts_exactly_window_codes:
  assumes dec: "base32Decode secret = Some buf"
    and step: "0 < stepSeconds"
    and lo: "stepSeconds * 1000 \<le> timestamp"
    and hi: "timestamp < 2 ^ 53"
  shows "generateTotp ext secret 6 stepSeconds timestamp
           = generateOtp ext buf (Num (timestamp div (stepSeconds * 1000))) 6
       \<and> (0 \<le> timestamp' \<and> timestamp' < 2 ^ 53
            \<and> timestamp' div (stepSeconds * 1000) = timestamp div (stepSeconds * 1000)
            \<longrightarrow> generateTotp ext secret 6 stepSeconds timestamp'
                = generateTotp ext secret 6 stepSeconds timestamp)
       \<and> isValidTotpToken ext secret token 6 stepSeconds 1 timestamp
           = Inr (is_totp_shaped token
                  \<and> (\<exists>offset \<in> {- 1, 0, 1}.
                        generateOtp ext buf
                          (Num (timestamp div (stepSeconds * 1000) + offset)) 6
                        = Inr token))
       \<and> (generateOtp ext buf c' 6 = Inr code
            \<longrightarrow> isValidTotpToken ext secret code 6 stepSeconds 1 timestamp
                = Inr (\<exists>offset \<in> {- 1, 0, 1}.
                         generateOtp ext buf
                           (Num (timestamp div (stepSeconds * 1000) + offset)) 6
                         = Inr code))"
proof -
  let ?c = "timestamp div (stepSeconds * 1000)"
  have ms: "stepSeconds * 1000 < 2 ^ 53" using lo hi by simp
  have t0: "0 \<le> timestamp" using step lo by simp
  have counter: "floor_quotient (to_number t) (js_times (to_number stepSeconds) 1000)
                 = Num (t div (stepSeconds * 1000))" if "0 \<le> t" "t < 2 ^ 53" for t
    using totp_counter_exact [OF step that ms] .
  have one: "to_number 1 = Num 1" by (simp add: to_number_exact)
  have gen: "generateTotp ext secret 6 stepSeconds t
             = generateOtp ext buf (Num (t div (stepSeconds * 1000))) 6"
    if "0 \<le> t" "t < 2 ^ 53" for t
    using counter [OF that] by (simp add: generateTotp_def dec)
  have valid: "isValidTotpToken ext secret t 6 stepSeconds 1 timestamp
        = Inr (is_totp_shaped t
               \<and> (\<exists>offset \<in> {- 1, 0, 1}. generateOtp ext buf (Num (?c + offset)) 6 = Inr t))" for t
    using totp_window_three [OF counter_in_range [OF step lo hi], of ext buf 6 t]
    by (auto simp: isValidTotpToken_def dec window_offsets counter [OF t0 hi] one)
  have same: "0 \<le> timestamp' \<and> timestamp' < 2 ^ 53 \<and> timestamp' div (stepSeconds * 1000) = ?c
        \<longrightarrow> generateTotp ext secret 6 stepSeconds timestamp'
            = generateTotp ext secret 6 stepSeconds timestamp"
    using gen [of timestamp'] gen [OF t0 hi] by auto
  have far: "generateOtp ext buf c' 6 = Inr code
        \<longrightarrow> isValidTotpToken ext secret code 6 stepSeconds 1 timestamp
            = Inr (\<exists>offset \<in> {- 1, 0, 1}. generateOtp ext buf (Num (?c + offset)) 6 = Inr code)"
    using generateOtp_shaped [of ext buf c' code] by (simp add: valid)
  from gen [OF t0 hi] same valid far show ?thesis by blast
qed

theorem totp_accepts_exactly_window_codes_witness:
  "generateTotp ext0 ''JBSWY3DPEHPK3PXP'' 6 30 now0 = Inr ''406378''
   \<and> generateTotp ext0 ''JBSWY3DPEHPK3PXP'' 6 30 (now0 + 1)
     = generateTotp ext0 ''JBSWY3DPEHPK3PXP'' 6 30 now0
   \<and> isValidTotpToken ext0 ''JBSWY3DPEHPK3PXP'' ''12345'' 6 30 1 now0 = Inr False
   \<and> isValidTotpToken ext0 ''JBSWY3DPEHPK3PXP'' ''563369'' 6 30 1 now0 = Inr True"
  using totp_accepts_exactly_window_codes [OF base32Decode_fixture, of 30 now0 ext0 "now0 + 1"
      "''12345''" "Num 56666665" "''563369''"]
  by (simp add: now0_def is_totp_shaped_def generateOtp_ext0)

text \<open>
  With HMAC-SHA1 as the MAC, the code of the step starting at 1730505720000 is
  854198. Sixty seconds later the current counter is two steps further, and the
  same code verifies: it is also the code of the step in between.
\<close>

theorem totp_code_two_steps_old_verifies:
  "generateTotp ext_sha1 ''JBSWY3DPEHPK3PXP'' 6 30 1730505720000 = Inr ''854198''
   \<and> (1730505780000 :: int) div (30 * 1000) = 1730505720000 div (30 * 1000) + 2
   \<and> isValidTotpToken ext_sha1 ''JBSWY3DPEHPK3PXP'' ''854198'' 6 30 1 1730505780000 = Inr True"
  by (simp add: generateTotp_def isValidTotpToken_def base32Decode_fixture window_offsets
      to_number_exact floor_double_exact
      generateOtp_sha1_a generateOtp_sha1_b is_totp_shaped_def is_digit_def char_between_def)

end
